theory Spec2Isabelle
  imports Main "HOL-Library.Word" "HOL-Library.Log_Nat"
begin

section \<open>JavaScript values used by the front-end\<close>

subsection \<open>Strings\<close>

text \<open>
  A JavaScript string is a sequence of 16-bit code units. The user-facing messages of the
  components are Chinese; they are written here by their code units.
\<close>

type_synonym jsstring = "16 word list"

definition ascii :: "string \<Rightarrow> jsstring" where
  "ascii s = map of_char s"

text \<open>Errors thrown by the code, by constructor name, with their message.\<close>

datatype js_error = Error jsstring | TypeError jsstring | URIError jsstring

subsection \<open>Numbers\<close>

text \<open>
  A JavaScript number is an IEEE 754 binary64 value: a finite value (a rational; \<open>Num 0\<close>
  is \<open>+0\<close>), the negative zero, an infinity (\<open>Infinity True\<close> is \<open>-Infinity\<close>) or NaN.
\<close>

datatype jsnum = Num rat | NegZero | Infinity bool | NaN

fun negative :: "jsnum \<Rightarrow> bool" where
  "negative (Num q) = (q < 0)"
| "negative NegZero = True"
| "negative (Infinity s) = s"
| "negative NaN = False"

fun magnitude :: "jsnum \<Rightarrow> rat" where
  "magnitude (Num q) = \<bar>q\<bar>"
| "magnitude _ = 0"

fun val :: "jsnum \<Rightarrow> rat" where
  "val (Num q) = q"
| "val _ = 0"

fun is_zero :: "jsnum \<Rightarrow> bool" where
  "is_zero (Num q) = (q = 0)"
| "is_zero NegZero = True"
| "is_zero _ = False"

fun is_infinite :: "jsnum \<Rightarrow> bool" where
  "is_infinite (Infinity s) = True"
| "is_infinite _ = False"

definition with_sign :: "bool \<Rightarrow> rat \<Rightarrow> jsnum" where
  "with_sign s r = (if r = 0 then (if s then NegZero else Num 0) else Num (if s then - r else r))"

text \<open>\<open>ilog2 a\<close> is the integer part of the binary logarithm of a positive rational.\<close>

definition ilog2 :: "rat \<Rightarrow> int" where
  "ilog2 a = (if 1 \<le> a then bitlen \<lfloor>a\<rfloor> - 1 else - bitlen (\<lceil>1 / a\<rceil> - 1))"

definition round_ties_even :: "rat \<Rightarrow> int" where
  "round_ties_even x =
     (let f = \<lfloor>x\<rfloor>; r = x - of_int f
      in if r < 1 / 2 then f else if 1 / 2 < r then f + 1 else if even f then f else f + 1)"

text \<open>
  Rounding of an exact result of sign \<open>s\<close> and magnitude \<open>a\<close> to binary64, to nearest with
  ties to even: 53 significant bits, least exponent \<open>-1074\<close>, overflow to infinity from
  \<open>2 ^ 1024\<close> on.
\<close>

definition fl :: "bool \<Rightarrow> rat \<Rightarrow> jsnum" where
  "fl s a =
     (if a = 0 then with_sign s 0
      else let e = max (ilog2 a - 52) (- 1074);
               r = of_int (round_ties_even (a / 2 powi e)) * 2 powi e
           in if 2 powi 1024 \<le> r then Infinity s else with_sign s r)"

text \<open>The operators \<open>*\<close>, \<open>/\<close>, \<open>+\<close>, unary and binary \<open>-\<close> on numbers.\<close>

definition js_mul :: "jsnum \<Rightarrow> jsnum \<Rightarrow> jsnum" where
  "js_mul x y =
     (if x = NaN \<or> y = NaN then NaN
      else if is_infinite x \<or> is_infinite y then
        (if is_zero x \<or> is_zero y then NaN else Infinity (negative x \<noteq> negative y))
      else fl (negative x \<noteq> negative y) (magnitude x * magnitude y))"

definition js_div :: "jsnum \<Rightarrow> jsnum \<Rightarrow> jsnum" where
  "js_div x y =
     (if x = NaN \<or> y = NaN then NaN
      else if is_infinite x then
        (if is_infinite y then NaN else Infinity (negative x \<noteq> negative y))
      else if is_infinite y then with_sign (negative x \<noteq> negative y) 0
      else if is_zero y then
        (if is_zero x then NaN else Infinity (negative x \<noteq> negative y))
      else fl (negative x \<noteq> negative y) (magnitude x / magnitude y))"

fun js_neg :: "jsnum \<Rightarrow> jsnum" where
  "js_neg (Num q) = (if q = 0 then NegZero else Num (- q))"
| "js_neg NegZero = Num 0"
| "js_neg (Infinity s) = Infinity (\<not> s)"
| "js_neg NaN = NaN"

definition js_add :: "jsnum \<Rightarrow> jsnum \<Rightarrow> jsnum" where
  "js_add x y =
     (if x = NaN \<or> y = NaN then NaN
      else if is_infinite x then
        (if is_infinite y \<and> negative x \<noteq> negative y then NaN else x)
      else if is_infinite y then y
      else let v = val x + val y
           in if v = 0 then with_sign (negative x \<and> negative y) 0 else fl (v < 0) \<bar>v\<bar>)"

definition js_sub :: "jsnum \<Rightarrow> jsnum \<Rightarrow> jsnum" where
  "js_sub x y = js_add x (js_neg y)"

text \<open>\<open>x === y\<close> and \<open>x > y\<close> on numbers: NaN equals nothing, the two zeros are equal.\<close>

definition strict_eq :: "jsnum \<Rightarrow> jsnum \<Rightarrow> bool" where
  "strict_eq x y =
     (if x = NaN \<or> y = NaN then False
      else if is_infinite x \<or> is_infinite y then x = y
      else val x = val y)"

definition js_gt :: "jsnum \<Rightarrow> jsnum \<Rightarrow> bool" where
  "js_gt x y =
     (if x = NaN \<or> y = NaN then False
      else if x = Infinity False then y \<noteq> Infinity False
      else if y = Infinity True then x \<noteq> Infinity True
      else if is_infinite x \<or> is_infinite y then False
      else val y < val x)"

text \<open>\<open>ToBoolean\<close> of a number: the zeros and NaN are falsy.\<close>

definition truthy_num :: "jsnum \<Rightarrow> bool" where
  "truthy_num x = (\<not> is_zero x \<and> x \<noteq> NaN)"

text \<open>
  \<open>Math.round\<close>: the closest integer, a tie going towards \<open>+Infinity\<close>; a value in
  \<open>[-0.5, 0)\<close> gives the negative zero.
\<close>

fun Math_round :: "jsnum \<Rightarrow> jsnum" where
  "Math_round (Num q) =
     (let n = \<lfloor>q + 1 / 2\<rfloor> in if n = 0 \<and> q < 0 then NegZero else Num (of_int n))"
| "Math_round x = x"

text \<open>
  The text produced by \<open>x.toFixed(0)\<close>: NaN and the infinities give their names; a
  magnitude from \<open>10 ^ 21\<close> on is written by \<open>Number::toString\<close> (exponent notation, whose
  digits are not expanded here); any other value gives an optional minus sign and the decimal
  digits of the closest integer to the magnitude, the larger one in a tie.
\<close>

datatype fixed_text =
    Digits bool nat
  | Exponential bool rat
  | TextInfinity bool
  | TextNaN

fun toFixed0 :: "jsnum \<Rightarrow> fixed_text" where
  "toFixed0 NaN = TextNaN"
| "toFixed0 (Infinity s) = TextInfinity s"
| "toFixed0 NegZero = Digits False 0"
| "toFixed0 (Num q) =
     (if 10 ^ 21 \<le> \<bar>q\<bar> then Exponential (q < 0) \<bar>q\<bar>
      else Digits (q < 0) (nat \<lfloor>\<bar>q\<bar> + 1 / 2\<rfloor>))"

section \<open>The shared analysis result (resume previewer context)\<close>

record PersonalInfo =
  name :: jsstring
  title :: "jsstring option"
  email :: jsstring
  phone :: jsstring
  location :: jsstring
  website :: "jsstring option"
  linkedin :: "jsstring option"
  github :: "jsstring option"

record ExperienceEntry =
  exp_id :: jsnum
  exp_title :: jsstring
  company :: jsstring
  exp_location :: "jsstring option"
  exp_years :: "jsstring option"
  exp_description :: "jsstring list"

record EducationEntry =
  edu_id :: jsnum
  institution :: jsstring
  degree :: jsstring
  edu_years :: "jsstring option"
  edu_description :: "jsstring option"

record ResumePreview =
  personalInfo :: PersonalInfo
  summary :: "jsstring option"
  experience :: "ExperienceEntry list"
  education :: "EducationEntry list"
  skills :: "jsstring list"

datatype line_number = LineStr jsstring | LineNum jsnum

record ImprovementSuggestion =
  suggestion :: jsstring
  lineNumber :: "line_number option"

record SkillAnalysis =
  job_skill :: jsstring
  best_resume_match :: jsstring
  similarity_score :: jsnum
  match_level :: jsstring
  coverage_percentage :: jsnum

record CoverageGap =
  missing_skill :: jsstring
  gap_severity :: jsstring
  suggested_action :: jsstring

record StrengthArea =
  strong_skill :: jsstring
  resume_match :: jsstring
  strength_level :: jsstring

record CoverageStats =
  high_coverage :: jsnum
  medium_coverage :: jsnum
  low_coverage :: jsnum
  total_skills_required :: jsnum
  well_matched_skills :: jsnum
  gaps_count :: jsnum

record Recommendation =
  rec_type :: jsstring
  rec_skill :: "jsstring option"
  rec_suggestion :: jsstring
  rec_priority :: jsstring
  rec_action :: jsstring

record VectorAnalysisData =
  skill_by_skill_analysis :: "SkillAnalysis list"
  coverage_gaps :: "CoverageGap list"
  strength_areas :: "StrengthArea list"
  coverage_statistics :: CoverageStats
  detailed_recommendations :: "Recommendation list"

text \<open>
  The interface \<open>Data\<close>. The two scores and the resume preview are declared mandatory, but
  the dashboard tests them against \<open>undefined\<close>, so a missing field is \<open>None\<close> here.
\<close>

record Data =
  request_id :: jsstring
  resume_id :: jsstring
  job_id :: jsstring
  original_score :: "jsnum option"
  new_score :: "jsnum option"
  resume_preview :: "ResumePreview option"
  details :: "jsstring option"
  commentary :: "jsstring option"
  improvements :: "ImprovementSuggestion list option"
  vector_analysis :: "VectorAnalysisData option"

record ImprovedResult =
  data :: Data

text \<open>
  The context value: the current result and its setter. The setter of a \<open>useState\<close> cell
  replaces the cell's content, so it is the function from the new value and the old content
  to the new content.
\<close>

record ContextValue =
  improvedData :: "ImprovedResult option"
  setImprovedData :: "ImprovedResult option \<Rightarrow> ImprovedResult option \<Rightarrow> ImprovedResult option"

definition setState :: "'a \<Rightarrow> 'a \<Rightarrow> 'a" where
  "setState new old = new"

text \<open>
  \<open>createContext(undefined)\<close>: a consumer reads the value of the nearest enclosing
  provider, and the default \<open>undefined\<close> (\<open>None\<close>) when there is none. The enclosing
  providers of a component are the list of the states of their cells, innermost first.
\<close>

definition ResumePreviewProvider :: "ImprovedResult option \<Rightarrow> ContextValue" where
  "ResumePreviewProvider cell = \<lparr>improvedData = cell, setImprovedData = setState\<rparr>"

definition useContext :: "ImprovedResult option list \<Rightarrow> ContextValue option" where
  "useContext providers =
     (case providers of [] \<Rightarrow> None | cell # _ \<Rightarrow> Some (ResumePreviewProvider cell))"

definition useResumePreview :: "ImprovedResult option list \<Rightarrow> js_error + ContextValue" where
  "useResumePreview providers =
     (case useContext providers of
        None \<Rightarrow> Inl (Error (ascii ''useResumePreview must be used within ResumePreviewProvider''))
      | Some ctx \<Rightarrow> Inr ctx)"

section \<open>The vector-analysis card\<close>

text \<open>
  The statistics overview of the dialog of \<open>VectorAnalysis\<close>: three figures shown as
  they are, and the overall coverage
  \<open>((well_matched_skills / total_skills_required) * 100).toFixed(0)\<close>.
\<close>

record StatisticsOverview =
  shown_total :: jsnum
  shown_well_matched :: jsnum
  shown_gaps :: jsnum
  shown_overall :: fixed_text

definition VectorAnalysis_statistics :: "VectorAnalysisData \<Rightarrow> StatisticsOverview" where
  "VectorAnalysis_statistics vectorAnalysis =
     \<lparr>shown_total = total_skills_required (coverage_statistics vectorAnalysis),
      shown_well_matched = well_matched_skills (coverage_statistics vectorAnalysis),
      shown_gaps = gaps_count (coverage_statistics vectorAnalysis),
      shown_overall =
        toFixed0 (js_mul
          (js_div (well_matched_skills (coverage_statistics vectorAnalysis))
                  (total_skills_required (coverage_statistics vectorAnalysis)))
          (Num 100))\<rparr>"

section \<open>The dashboard page\<close>

datatype tab = metrics | resume

text \<open>
  The score card: the two percentages, and the change line, which is rendered only when the
  change is not \<open>0\<close>; its flag says whether the change is positive (a plus sign, green) or
  not (no sign, red).
\<close>

record ScoreCard =
  card_original :: jsnum
  card_new :: jsnum
  card_change :: "(bool \<times> jsnum) option"

record ResumeAnalysisProps =
  score :: jsnum
  props_details :: jsstring
  props_commentary :: jsstring
  props_improvements :: "ImprovementSuggestion list"

text \<open>
  \<open>{item.lineNumber && (<p>...</p>)}\<close>: a missing line number renders nothing, a falsy
  one (the empty string, a zero, NaN) is rendered bare, any other one in the position line.
\<close>

datatype line_view = NoLine | Bare line_number | Position line_number

fun truthy_line :: "line_number \<Rightarrow> bool" where
  "truthy_line (LineStr s) = (s \<noteq> [])"
| "truthy_line (LineNum n) = truthy_num n"

record PreviewItem =
  item_text :: jsstring
  item_line :: line_view

definition preview_item :: "ImprovementSuggestion \<Rightarrow> PreviewItem" where
  "preview_item item =
     \<lparr>item_text = suggestion item,
      item_line = (case lineNumber item of
                     None \<Rightarrow> NoLine
                   | Some l \<Rightarrow> if truthy_line l then Position l else Bare l)\<rparr>"

record QuickPreview =
  items :: "PreviewItem list"
  remaining :: "nat option"

text \<open>\<open>xs.slice(0, 3)\<close> on an array.\<close>

definition slice_0_3 :: "'a list \<Rightarrow> 'a list" where
  "slice_0_3 xs = take 3 xs"

definition quick_preview :: "ImprovementSuggestion list option \<Rightarrow> QuickPreview option" where
  "quick_preview imps =
     (case imps of
        None \<Rightarrow> None
      | Some xs \<Rightarrow>
          if length xs > 0
          then Some \<lparr>items = map preview_item (slice_0_3 xs),
                     remaining = (if length xs > 3 then Some (length xs - 3) else None)\<rparr>
          else None)"

datatype right_panel =
    MetricsPanel ResumeAnalysisProps "QuickPreview option"
  | ResumePanel ResumePreview
  | ResumeUnavailable

record Dashboard =
  score_card :: "ScoreCard option"
  vector_card :: "StatisticsOverview option"
  right :: right_panel
  incomplete_notice :: bool

datatype page = EmptyState | Analysis Dashboard

text \<open>\<open>x ?? d\<close>.\<close>

definition nullish :: "'a option \<Rightarrow> 'a \<Rightarrow> 'a" where
  "nullish x d = (case x of None \<Rightarrow> d | Some v \<Rightarrow> v)"

definition originalPct :: "Data \<Rightarrow> jsnum" where
  "originalPct d = Math_round (js_mul (nullish (original_score d) (Num 0)) (Num 100))"

definition newPct :: "Data \<Rightarrow> jsnum" where
  "newPct d = Math_round (js_mul (nullish (new_score d) (Num 0)) (Num 100))"

definition improvementPct :: "Data \<Rightarrow> jsnum" where
  "improvementPct d = js_sub (newPct d) (originalPct d)"

definition DashboardPage :: "ContextValue \<Rightarrow> tab \<Rightarrow> page" where
  "DashboardPage ctx activeTab =
     (case improvedData ctx of
        None \<Rightarrow> EmptyState
      | Some r \<Rightarrow>
          let d = data r in
          Analysis
           \<lparr>score_card =
              (if original_score d \<noteq> None \<and> new_score d \<noteq> None
               then Some \<lparr>card_original = originalPct d,
                          card_new = newPct d,
                          card_change =
                            (if \<not> strict_eq (improvementPct d) (Num 0)
                             then Some (js_gt (improvementPct d) (Num 0), improvementPct d)
                             else None)\<rparr>
               else None),
            vector_card = map_option VectorAnalysis_statistics (vector_analysis d),
            right =
              (case activeTab of
                 metrics \<Rightarrow>
                   MetricsPanel
                     \<lparr>score = newPct d,
                      props_details = nullish (details d) [],
                      props_commentary = nullish (commentary d) [],
                      props_improvements = nullish (improvements d) []\<rparr>
                     (quick_preview (improvements d))
               | resume \<Rightarrow>
                   (case resume_preview d of
                      Some p \<Rightarrow> ResumePanel p
                    | None \<Rightarrow> ResumeUnavailable)),
            incomplete_notice = (original_score d = None \<or> new_score d = None)\<rparr>)"

section \<open>String operations of the platform\<close>

text \<open>
  \<open>String.prototype.trim\<close> removes the white space and line terminator code units at both
  ends: TAB, LF, VT, FF, CR, SP, NBSP, U+1680, U+2000 to U+200A, U+2028, U+2029, U+202F,
  U+205F, U+3000 and U+FEFF.
\<close>

definition isWhiteSpace :: "16 word \<Rightarrow> bool" where
  "isWhiteSpace c =
     (c \<in> {0x09, 0x0A, 0x0B, 0x0C, 0x0D, 0x20, 0xA0, 0x1680, 0x2028, 0x2029, 0x202F, 0x205F,
            0x3000, 0xFEFF}
      \<or> (0x2000 \<le> c \<and> c \<le> 0x200A))"

definition trim :: "jsstring \<Rightarrow> jsstring" where
  "trim s = rev (dropWhile isWhiteSpace (rev (dropWhile isWhiteSpace s)))"

text \<open>\<open>Array.prototype.join\<close> on an array of strings.\<close>

fun join :: "jsstring \<Rightarrow> jsstring list \<Rightarrow> jsstring" where
  "join sep [] = []"
| "join sep [x] = x"
| "join sep (x # y # ys) = x @ sep @ join sep (y # ys)"

text \<open>
  \<open>encodeURIComponent\<close>. The code units of letters, digits and \<open>- _ . ! ~ * ' ( )\<close> are
  kept; any other code point is written as the \<open>%XX\<close> escapes (upper-case hexadecimal) of
  the octets of its UTF-8 encoding. A surrogate code unit that is not part of a pair throws
  a \<open>URIError\<close>.
\<close>

definition uriUnescaped :: "16 word \<Rightarrow> bool" where
  "uriUnescaped c =
     ((0x41 \<le> c \<and> c \<le> 0x5A) \<or> (0x61 \<le> c \<and> c \<le> 0x7A) \<or> (0x30 \<le> c \<and> c \<le> 0x39)
      \<or> c \<in> {0x2D, 0x5F, 0x2E, 0x21, 0x7E, 0x2A, 0x27, 0x28, 0x29})"

definition isLeadingSurrogate :: "16 word \<Rightarrow> bool" where
  "isLeadingSurrogate c = (0xD800 \<le> c \<and> c \<le> 0xDBFF)"

definition isTrailingSurrogate :: "16 word \<Rightarrow> bool" where
  "isTrailingSurrogate c = (0xDC00 \<le> c \<and> c \<le> 0xDFFF)"

definition UTF16SurrogatePairToCodePoint :: "16 word \<Rightarrow> 16 word \<Rightarrow> nat" where
  "UTF16SurrogatePairToCodePoint lead trail =
     (unat lead - 0xD800) * 0x400 + (unat trail - 0xDC00) + 0x10000"

definition utf8_octets :: "nat \<Rightarrow> nat list" where
  "utf8_octets cp =
     (if cp < 0x80 then [cp]
      else if cp < 0x800 then [0xC0 + cp div 0x40, 0x80 + cp mod 0x40]
      else if cp < 0x10000 then
        [0xE0 + cp div 0x1000, 0x80 + cp div 0x40 mod 0x40, 0x80 + cp mod 0x40]
      else [0xF0 + cp div 0x40000, 0x80 + cp div 0x1000 mod 0x40,
            0x80 + cp div 0x40 mod 0x40, 0x80 + cp mod 0x40])"

definition hex_digit :: "nat \<Rightarrow> 16 word" where
  "hex_digit n = (if n < 10 then 0x30 + of_nat n else 0x41 + of_nat (n - 10))"

definition percent_escape :: "nat \<Rightarrow> jsstring" where
  "percent_escape octet = [0x25, hex_digit (octet div 16), hex_digit (octet mod 16)]"

definition URIError_malformed :: js_error where
  "URIError_malformed = URIError (ascii ''URI malformed'')"

fun encodeURIComponent :: "jsstring \<Rightarrow> js_error + jsstring" where
  "encodeURIComponent [] = Inr []"
| "encodeURIComponent (c # cs) =
     (if uriUnescaped c then
        (case encodeURIComponent cs of Inl e \<Rightarrow> Inl e | Inr r \<Rightarrow> Inr (c # r))
      else if isTrailingSurrogate c then Inl URIError_malformed
      else if isLeadingSurrogate c then
        (case cs of
           [] \<Rightarrow> Inl URIError_malformed
         | d # ds \<Rightarrow>
             if isTrailingSurrogate d then
               (case encodeURIComponent ds of
                  Inl e \<Rightarrow> Inl e
                | Inr r \<Rightarrow>
                    Inr (concat (map percent_escape
                           (utf8_octets (UTF16SurrogatePairToCodePoint c d))) @ r))
             else Inl URIError_malformed)
      else
        (case encodeURIComponent cs of
           Inl e \<Rightarrow> Inl e
         | Inr r \<Rightarrow> Inr (concat (map percent_escape (utf8_octets (unat c))) @ r)))"

text \<open>The values of type \<open>unknown\<close> in a parsed JSON body.\<close>

datatype json =
    JNull
  | JBool bool
  | JNumber jsnum
  | JString jsstring
  | JArray "json list"
  | JObject "(jsstring \<times> json) list"

text \<open>\<open>String.prototype.split\<close> at a separator, here on lists.\<close>

fun split_on :: "'a \<Rightarrow> 'a list \<Rightarrow> 'a list list" where
  "split_on sep [] = [[]]"
| "split_on sep (x # xs) =
     (if x = sep then [] # split_on sep xs
      else (case split_on sep xs of
              [] \<Rightarrow> [[x]]
            | y # ys \<Rightarrow> (x # y) # ys))"

section \<open>The address and its search parameters\<close>

text \<open>
  Assigning \<open>window.location.href\<close> loads the address, and the page loaded reads its
  search parameters with \<open>useSearchParams().get\<close>. What the platform does in between is
  modelled for a reference without scheme and authority, such as the \<open>/jobs?...\<close> that
  the upload control assigns.

  A string becomes a sequence of code points: a surrogate pair is one code point, a
  surrogate that is not part of a pair is replaced by U+FFFD.
\<close>

fun usv_code_points :: "jsstring \<Rightarrow> nat list" where
  "usv_code_points [] = []"
| "usv_code_points (c # cs) =
     (if isLeadingSurrogate c then
        (case cs of
           [] \<Rightarrow> [0xFFFD]
         | d # ds \<Rightarrow>
             if isTrailingSurrogate d
             then UTF16SurrogatePairToCodePoint c d # usv_code_points ds
             else 0xFFFD # usv_code_points cs)
      else if isTrailingSurrogate c then 0xFFFD # usv_code_points cs
      else unat c # usv_code_points cs)"

text \<open>A code point as UTF-16 code units.\<close>

definition utf16 :: "nat \<Rightarrow> jsstring" where
  "utf16 cp =
     (if cp < 0x10000 then [of_nat cp]
      else [of_nat (0xD800 + (cp - 0x10000) div 0x400),
            of_nat (0xDC00 + (cp - 0x10000) mod 0x400)])"

text \<open>
  The UTF-8 decoder with replacement: after a first byte it awaits one to three continuation
  bytes, the first of them in a range that depends on the first byte; an unexpected byte
  gives U+FFFD and is then read again as a first byte; an input that ends inside a sequence
  gives U+FFFD. A pending state is the code point so far, the number of bytes awaited and the
  range of the next byte.
\<close>

datatype utf8_start = Emit nat | Pending nat nat nat nat | Invalid

definition utf8_first :: "nat \<Rightarrow> utf8_start" where
  "utf8_first b =
     (if b \<le> 0x7F then Emit b
      else if 0xC2 \<le> b \<and> b \<le> 0xDF then Pending (b mod 0x20) 1 0x80 0xBF
      else if 0xE0 \<le> b \<and> b \<le> 0xEF then
        Pending (b mod 0x10) 2 (if b = 0xE0 then 0xA0 else 0x80) (if b = 0xED then 0x9F else 0xBF)
      else if 0xF0 \<le> b \<and> b \<le> 0xF4 then
        Pending (b mod 0x08) 3 (if b = 0xF0 then 0x90 else 0x80) (if b = 0xF4 then 0x8F else 0xBF)
      else Invalid)"

fun utf8_decode_from :: "(nat \<times> nat \<times> nat \<times> nat) option \<Rightarrow> nat list \<Rightarrow> nat list" where
  "utf8_decode_from None [] = []"
| "utf8_decode_from (Some st) [] = [0xFFFD]"
| "utf8_decode_from None (b # bs) =
     (case utf8_first b of
        Emit c \<Rightarrow> c # utf8_decode_from None bs
      | Pending c m l h \<Rightarrow> utf8_decode_from (Some (c, m, l, h)) bs
      | Invalid \<Rightarrow> 0xFFFD # utf8_decode_from None bs)"
| "utf8_decode_from (Some (cp, n, lo, hi)) (b # bs) =
     (if b < lo \<or> hi < b then
        0xFFFD #
          (case utf8_first b of
             Emit c \<Rightarrow> c # utf8_decode_from None bs
           | Pending c m l h \<Rightarrow> utf8_decode_from (Some (c, m, l, h)) bs
           | Invalid \<Rightarrow> 0xFFFD # utf8_decode_from None bs)
      else if n = 1 then (cp * 0x40 + b mod 0x40) # utf8_decode_from None bs
      else utf8_decode_from (Some (cp * 0x40 + b mod 0x40, n - 1, 0x80, 0xBF)) bs)"

text \<open>
  Percent-decoding of bytes: \<open>%\<close> followed by two hexadecimal digits is the byte they
  write; any other byte stands for itself.
\<close>

definition is_hex :: "nat \<Rightarrow> bool" where
  "is_hex b = ((0x30 \<le> b \<and> b \<le> 0x39) \<or> (0x41 \<le> b \<and> b \<le> 0x46) \<or> (0x61 \<le> b \<and> b \<le> 0x66))"

definition hex_value :: "nat \<Rightarrow> nat" where
  "hex_value b = (if b \<le> 0x39 then b - 0x30 else if b \<le> 0x46 then b - 0x37 else b - 0x57)"

fun percent_decode :: "nat list \<Rightarrow> nat list" where
  "percent_decode [] = []"
| "percent_decode (b # bs) =
     (if b = 0x25 then
        (case bs of
           h # l # rest \<Rightarrow>
             if is_hex h \<and> is_hex l then (hex_value h * 16 + hex_value l) # percent_decode rest
             else b # percent_decode bs
         | _ \<Rightarrow> b # percent_decode bs)
      else b # percent_decode bs)"

text \<open>
  The query of the address loaded (\<open>location.search\<close>): leading and trailing controls and
  spaces are dropped from the reference, tabs and newlines are removed, the query is what
  follows the first \<open>?\<close> before any \<open>#\<close>, and in it controls, space, \<open>" # ' < >\<close>
  and the code points above \<open>~\<close> are written as the percent escapes of their UTF-8
  octets. An empty query gives the empty string.
\<close>

definition special_query_escape :: "nat \<Rightarrow> jsstring" where
  "special_query_escape cp =
     (if cp \<le> 0x20 \<or> 0x7E < cp \<or> cp \<in> {0x22, 0x23, 0x27, 0x3C, 0x3E}
      then concat (map percent_escape (utf8_octets cp))
      else [of_nat cp])"

definition strip_c0_space :: "nat list \<Rightarrow> nat list" where
  "strip_c0_space cps =
     rev (dropWhile (\<lambda>cp. cp \<le> 0x20) (rev (dropWhile (\<lambda>cp. cp \<le> 0x20) cps)))"

definition location_search :: "jsstring \<Rightarrow> jsstring" where
  "location_search href =
     (let input = filter (\<lambda>cp. cp \<notin> {0x09, 0x0A, 0x0D})
                    (strip_c0_space (usv_code_points href));
          query = drop 1 (dropWhile (\<lambda>cp. cp \<noteq> 0x3F) (takeWhile (\<lambda>cp. cp \<noteq> 0x23) input))
      in if query = [] then [] else 0x3F # concat (map special_query_escape query))"

text \<open>
  \<open>URLSearchParams\<close>: a leading \<open>?\<close> is dropped, the UTF-8 bytes are split at \<open>&\<close>,
  empty pieces are ignored, each piece is split at its first \<open>=\<close> into name and value,
  and in both \<open>+\<close> becomes a space before percent-decoding and UTF-8 decoding. \<open>get\<close>
  returns the value of the first pair with the name, or \<open>null\<close>.
\<close>

definition form_decode :: "nat list \<Rightarrow> jsstring" where
  "form_decode bytes =
     concat (map utf16
       (utf8_decode_from None
          (percent_decode (map (\<lambda>b. if b = 0x2B then 0x20 else b) bytes))))"

definition name_value :: "nat list \<Rightarrow> jsstring \<times> jsstring" where
  "name_value bytes =
     (form_decode (takeWhile (\<lambda>b. b \<noteq> 0x3D) bytes),
      form_decode (drop 1 (dropWhile (\<lambda>b. b \<noteq> 0x3D) bytes)))"

definition URLSearchParams :: "jsstring \<Rightarrow> (jsstring \<times> jsstring) list" where
  "URLSearchParams init =
     (let s = (case init of [] \<Rightarrow> [] | c # cs \<Rightarrow> if c = 0x3F then cs else init);
          bytes = concat (map utf8_octets (usv_code_points s))
      in map name_value (filter (\<lambda>seq. seq \<noteq> []) (split_on 0x26 bytes)))"

definition searchParams_get :: "(jsstring \<times> jsstring) list \<Rightarrow> jsstring \<Rightarrow> jsstring option" where
  "searchParams_get params key = map_of params key"

section \<open>The resume upload control\<close>

definition acceptedFileTypes :: "jsstring list" where
  "acceptedFileTypes =
     [ascii ''application/pdf'',
      ascii ''application/vnd.openxmlformats-officedocument.wordprocessingml.document'']"

definition acceptString :: jsstring where
  "acceptString = join (ascii '','') acceptedFileTypes"

definition maxSize :: nat where
  "maxSize = 2 * 1024 * 1024"

text \<open>The file handed to the callbacks, with the two upload flags the control displays.\<close>

record FileMetadata =
  file_name :: jsstring
  file_size :: nat
  file_type :: jsstring
  uploaded :: "bool option"
  uploadError :: "jsstring option"

datatype feedback_type = feedback_success | feedback_error

record Feedback =
  feedback_type :: feedback_type
  feedback_message :: jsstring

text \<open>
  What a callback of the control does, in order: it sets the feedback cell, calls the hook's
  \<open>clearErrors\<close>, assigns \<open>window.location.href\<close>. (Console output is left out.)
\<close>

datatype effect =
    setUploadFeedback "Feedback option"
  | clearErrors
  | set_location_href jsstring

text \<open>The messages, by their code units.\<close>

definition msg_missing_resume_id :: jsstring where
  "msg_missing_resume_id =
     [0x4E0A, 0x4F20, 0x6210, 0x529F, 0x4F46, 0x672A, 0x6536, 0x5230, 0x7B80, 0x5386,
      0x49, 0x44, 0x3002]"

definition msg_upload_succeeded :: jsstring where
  "msg_upload_succeeded = [0x20, 0x4E0A, 0x4F20, 0x6210, 0x529F, 0xFF01]"

definition msg_unknown_upload_error :: jsstring where
  "msg_unknown_upload_error =
     [0x4E0A, 0x4F20, 0x8FC7, 0x7A0B, 0x4E2D, 0x53D1, 0x751F, 0x672A, 0x77E5, 0x9519,
      0x8BEF, 0x3002]"

text \<open>
  The response handed to \<open>onUploadSuccess\<close> is the parsed body of the upload request, or
  \<open>undefined\<close> (\<open>None\<close>) when there is none. The cast to
  \<open>Record<string, unknown>\<close> does nothing at run time, so \<open>data.resume_id\<close> reads the
  property of whatever value arrived: on \<open>undefined\<close> and on \<open>null\<close> the read throws a
  \<open>TypeError\<close> (with the message of V8 here); an object gives its member of that name, the
  last one when the body repeats the name, as \<open>JSON.parse\<close> keeps it; a boolean, a number,
  a string and an array have no such property, and the read gives \<open>undefined\<close>.
\<close>

definition TypeError_reading_resume_id :: "string \<Rightarrow> js_error" where
  "TypeError_reading_resume_id v =
     TypeError (ascii ''Cannot read properties of '' @ ascii v @ ascii '' (reading ''
                @ [0x27] @ ascii ''resume_id'' @ [0x27] @ ascii '')'')"

fun data_resume_id :: "json option \<Rightarrow> js_error + json option" where
  "data_resume_id None = Inl (TypeError_reading_resume_id ''undefined'')"
| "data_resume_id (Some JNull) = Inl (TypeError_reading_resume_id ''null'')"
| "data_resume_id (Some (JObject members)) = Inr (map_of (rev members) (ascii ''resume_id''))"
| "data_resume_id (Some _) = Inr None"

text \<open>
  \<open>onUploadSuccess\<close>: the effects performed, and the error thrown if the callback does not
  return. \<open>resumeId\<close> is the \<open>resume_id\<close> of the response when that is a string, and
  \<open>undefined\<close> otherwise; \<open>!resumeId\<close> holds for \<open>undefined\<close> and for the empty string.
\<close>

definition onUploadSuccess ::
  "FileMetadata \<Rightarrow> json option \<Rightarrow> effect list \<times> js_error option" where
  "onUploadSuccess uploadedFile response =
     (case data_resume_id response of
        Inl e \<Rightarrow> ([], Some e)
      | Inr data_resume_id_value \<Rightarrow>
          let resumeId = (case data_resume_id_value of
                            Some (JString s) \<Rightarrow> Some s
                          | _ \<Rightarrow> None);
              missing = ([setUploadFeedback
                            (Some \<lparr>feedback_type = feedback_error,
                                   feedback_message = msg_missing_resume_id\<rparr>)], None);
              succeeded = [setUploadFeedback
                             (Some \<lparr>feedback_type = feedback_success,
                                    feedback_message =
                                      file_name uploadedFile @ msg_upload_succeeded\<rparr>),
                           clearErrors]
          in case resumeId of
               None \<Rightarrow> missing
             | Some rid \<Rightarrow>
                 if rid = [] then missing
                 else
                   (case encodeURIComponent rid of
                      Inl e \<Rightarrow> (succeeded, Some e)
                    | Inr encodedResumeId \<Rightarrow>
                        (succeeded @
                           [set_location_href (ascii ''/jobs?resume_id='' @ encodedResumeId)],
                         None)))"

text \<open>\<open>onUploadError\<close>: \<open>errorMsg || default\<close> takes the default for an empty message.\<close>

definition onUploadError :: "FileMetadata \<Rightarrow> jsstring \<Rightarrow> effect list" where
  "onUploadError file errorMsg =
     [setUploadFeedback
        (Some \<lparr>feedback_type = feedback_error,
               feedback_message = (if errorMsg \<noteq> [] then errorMsg
                                   else msg_unknown_upload_error)\<rparr>)]"

definition onFilesChange :: "FileMetadata list \<Rightarrow> effect list" where
  "onFilesChange currentFiles = (if length currentFiles = 0 then [setUploadFeedback None] else [])"

section \<open>The job description form\<close>

datatype SubmissionStatus = idle | submitting | success | error

datatype ImprovementStatus = improve_idle | improving | improve_error

datatype flash_type = flash_error | flash_success

record Flash =
  flash_type :: flash_type
  flash_message :: jsstring

text \<open>The two calls of the API client the form makes, with their arguments.\<close>

datatype request =
    uploadJobDescriptions "jsstring list" jsstring
  | improveResume "jsstring option" jsstring

fun is_improve :: "request \<Rightarrow> bool" where
  "is_improve (improveResume r j) = True"
| "is_improve (uploadJobDescriptions ds r) = False"

text \<open>
  The five cells of the component, and around them what its handlers act on: the requests
  awaiting their answer (in the order they were issued), the cell of the context provider,
  and the paths pushed to the router.
\<close>

record form_state =
  text_value :: jsstring
  flash :: "Flash option"
  submissionStatus :: SubmissionStatus
  improvementStatus :: ImprovementStatus
  jobId :: "jsstring option"

record page_state = form_state +
  in_flight :: "request list"
  context_cell :: "ImprovedResult option"
  router_pushed :: "jsstring list"

definition initial_state :: "ImprovedResult option \<Rightarrow> page_state" where
  "initial_state cell =
     \<lparr>text_value = [], flash = None, submissionStatus = idle,
      improvementStatus = improve_idle, jobId = None,
      in_flight = [], context_cell = cell, router_pushed = []\<rparr>"

definition msg_empty_description :: jsstring where
  "msg_empty_description =
     [0x5DE5, 0x4F5C, 0x63CF, 0x8FF0, 0x4E0D, 0x80FD, 0x4E3A, 0x7A7A, 0x3002]"

definition msg_missing_resume :: jsstring where
  "msg_missing_resume = [0x7F3A, 0x5C11, 0x7B80, 0x5386, 0x49, 0x44, 0x3002]"

definition msg_submitted :: jsstring where
  "msg_submitted =
     [0x5DE5, 0x4F5C, 0x63CF, 0x8FF0, 0x63D0, 0x4EA4, 0x6210, 0x529F, 0xFF01]"

fun message :: "js_error \<Rightarrow> jsstring" where
  "message (Error m) = m"
| "message (TypeError m) = m"
| "message (URIError m) = m"

text \<open>
  \<open>const resumeId = useSearchParams().get('resume_id')!\<close>, for the address the page was
  loaded from.
\<close>

definition page_resumeId :: "jsstring \<Rightarrow> jsstring option" where
  "page_resumeId href =
     searchParams_get (URLSearchParams (location_search href)) (ascii ''resume_id'')"

definition handleChange :: "jsstring \<Rightarrow> page_state \<Rightarrow> page_state" where
  "handleChange v s =
     s\<lparr>text_value := v, flash := None,
       submissionStatus := (if submissionStatus s \<noteq> idle then idle else submissionStatus s)\<rparr>"

text \<open>
  \<open>handleUpload\<close> up to its \<open>await\<close>: \<open>resumeId\<close> is the \<open>resume_id\<close> search parameter
  of the page (\<open>null\<close> when the address has none); \<open>!trimmed\<close> and \<open>!resumeId\<close> hold for
  the empty string.
\<close>

definition handleUpload :: "jsstring option \<Rightarrow> page_state \<Rightarrow> page_state" where
  "handleUpload resumeId s =
     (let trimmed = trim (text_value s)
      in if trimmed = [] then
           s\<lparr>flash := Some \<lparr>flash_type = flash_error, flash_message = msg_empty_description\<rparr>\<rparr>
         else
           (case resumeId of
              None \<Rightarrow>
                s\<lparr>flash := Some \<lparr>flash_type = flash_error, flash_message = msg_missing_resume\<rparr>\<rparr>
            | Some rid \<Rightarrow>
                if rid = [] then
                  s\<lparr>flash := Some \<lparr>flash_type = flash_error,
                                    flash_message = msg_missing_resume\<rparr>\<rparr>
                else
                  s\<lparr>submissionStatus := submitting,
                    in_flight := in_flight s @ [uploadJobDescriptions [trimmed] rid]\<rparr>))"

text \<open>
  \<open>handleUpload\<close> after its \<open>await\<close>, on the state of that moment: the \<open>try\<close> branch for
  a job identifier, the \<open>catch\<close> branch for a thrown error.
\<close>

definition handleUpload_settled :: "js_error + jsstring \<Rightarrow> page_state \<Rightarrow> page_state" where
  "handleUpload_settled r s =
     (case r of
        Inr jid \<Rightarrow>
          s\<lparr>jobId := Some jid, submissionStatus := success,
            flash := Some \<lparr>flash_type = flash_success, flash_message = msg_submitted\<rparr>\<rparr>
      | Inl err \<Rightarrow>
          s\<lparr>submissionStatus := error,
            flash := Some \<lparr>flash_type = flash_error, flash_message = message err\<rparr>\<rparr>)"

definition handleImprove :: "jsstring option \<Rightarrow> page_state \<Rightarrow> page_state" where
  "handleImprove resumeId s =
     (case jobId s of
        None \<Rightarrow> s
      | Some j \<Rightarrow>
          if j = [] then s
          else s\<lparr>improvementStatus := improving,
                 in_flight := in_flight s @ [improveResume resumeId j]\<rparr>)"

definition handleImprove_settled ::
  "js_error + ImprovedResult \<Rightarrow> page_state \<Rightarrow> page_state" where
  "handleImprove_settled r s =
     (case r of
        Inr preview \<Rightarrow>
          s\<lparr>context_cell := setState (Some preview) (context_cell s),
            router_pushed := router_pushed s @ [ascii ''/dashboard'']\<rparr>
      | Inl err \<Rightarrow>
          s\<lparr>improvementStatus := improve_error,
            flash := Some \<lparr>flash_type = flash_error, flash_message = message err\<rparr>\<rparr>)"

text \<open>The submit button is disabled by \<open>isNextDisabled\<close>.\<close>

definition isNextDisabled :: "page_state \<Rightarrow> bool" where
  "isNextDisabled s = (trim (text_value s) = [] \<or> submissionStatus s = submitting)"

text \<open>
  The improve button: not rendered (\<open>None\<close>) unless the submission succeeded and there is a
  non-empty job identifier; rendered, it is disabled (\<open>Some True\<close>) while improving.
\<close>

definition improve_button :: "page_state \<Rightarrow> bool option" where
  "improve_button s =
     (if submissionStatus s = success \<and> jobId s \<noteq> None \<and> jobId s \<noteq> Some []
      then Some (improvementStatus s = improving) else None)"

text \<open>
  What can happen to the rendered form: the user edits the text, presses the submit button
  (nothing happens on a disabled button), presses the improve button (nothing happens when
  it is missing or disabled), or the request at some position of the requests in flight is
  answered.
\<close>

datatype event =
    Change jsstring
  | Submit
  | ClickImprove
  | UploadSettled nat "js_error + jsstring"
  | ImproveSettled nat "js_error + ImprovedResult"

definition remove_nth :: "nat \<Rightarrow> 'a list \<Rightarrow> 'a list" where
  "remove_nth i xs = take i xs @ drop (Suc i) xs"

fun step :: "jsstring option \<Rightarrow> page_state \<Rightarrow> event \<Rightarrow> page_state" where
  "step resumeId s (Change v) = handleChange v s"
| "step resumeId s Submit = (if isNextDisabled s then s else handleUpload resumeId s)"
| "step resumeId s ClickImprove =
     (if improve_button s = Some False then handleImprove resumeId s else s)"
| "step resumeId s (UploadSettled i r) =
     (if i < length (in_flight s) \<and> \<not> is_improve (in_flight s ! i)
      then handleUpload_settled r (s\<lparr>in_flight := remove_nth i (in_flight s)\<rparr>)
      else s)"
| "step resumeId s (ImproveSettled i r) =
     (if i < length (in_flight s) \<and> is_improve (in_flight s ! i)
      then handleImprove_settled r (s\<lparr>in_flight := remove_nth i (in_flight s)\<rparr>)
      else s)"

definition run :: "jsstring option \<Rightarrow> ImprovedResult option \<Rightarrow> event list \<Rightarrow> page_state" where
  "run resumeId cell es = foldl (step resumeId) (initial_state cell) es"

section \<open>The upload hook\<close>

text \<open>
  Modelled from the spec: the hook \<open>useFileUpload\<close> (\<open>hooks/use-file-upload\<close>), which
  validates a selected file and uploads it, is not among the sources; only its call in
  \<open>FileUpload\<close> is. The spec says that the control "validates file type/size against
  static constants, and performs a single HTTP request per file, surfacing success/error via
  callbacks", and that "a file above the size/type limit is rejected before upload". The
  options are those the call passes: \<open>maxSize\<close>, \<open>accept\<close> (the accepted types joined by
  commas), \<open>multiple\<close> and \<open>uploadUrl\<close>.
\<close>

record FileUploadOptions =
  opt_maxSize :: nat
  opt_accept :: jsstring
  opt_multiple :: bool
  opt_uploadUrl :: jsstring

definition validateFile :: "FileUploadOptions \<Rightarrow> FileMetadata \<Rightarrow> bool" where
  "validateFile opts file =
     (file_size file \<le> opt_maxSize opts
      \<and> file_type file \<in> set (split_on 0x2C (opt_accept opts)))"

datatype http_request = POST jsstring FileMetadata

text \<open>The requests made for a selected file: none for a rejected one, one otherwise.\<close>

definition useFileUpload_requests :: "FileUploadOptions \<Rightarrow> FileMetadata \<Rightarrow> http_request list" where
  "useFileUpload_requests opts file =
     (if validateFile opts file then [POST (opt_uploadUrl opts) file] else [])"

text \<open>
  The options \<open>FileUpload\<close> passes to the hook; \<open>api_url\<close> is the value of
  \<open>NEXT_PUBLIC_API_URL\<close>.
\<close>

definition FileUpload_options :: "jsstring \<Rightarrow> FileUploadOptions" where
  "FileUpload_options api_url =
     \<lparr>opt_maxSize = maxSize, opt_accept = acceptString, opt_multiple = False,
      opt_uploadUrl = api_url @ ascii ''/api/v1/resumes/upload''\<rparr>"

section \<open>Auxiliary notions for the properties\<close>

text \<open>
  \<open>String.prototype.isWellFormed\<close>: every surrogate code unit is part of a pair of a
  leading and a trailing one.
\<close>

fun well_formed :: "jsstring \<Rightarrow> bool" where
  "well_formed [] = True"
| "well_formed (c # cs) =
     (if isLeadingSurrogate c then
        (case cs of [] \<Rightarrow> False | d # ds \<Rightarrow> isTrailingSurrogate d \<and> well_formed ds)
      else \<not> isTrailingSurrogate c \<and> well_formed cs)"

text \<open>
  A scalar value is a code point that is not a surrogate. \<open>enc_cp\<close> is what
  \<open>encodeURIComponent\<close> writes for one code point; the code units it writes are
  \<open>plain\<close>, and a plain code unit is \<open>query_safe\<close>: it delimits nothing in an address.
\<close>

definition scalar :: "nat \<Rightarrow> bool" where
  "scalar cp = (cp < 0x110000 \<and> \<not> (0xD800 \<le> cp \<and> cp \<le> 0xDFFF))"

definition enc_cp :: "nat \<Rightarrow> jsstring" where
  "enc_cp cp =
     (if cp < 0x10000 \<and> uriUnescaped (of_nat cp) then [of_nat cp]
      else concat (map percent_escape (utf8_octets cp)))"

definition plain :: "16 word \<Rightarrow> bool" where
  "plain c = (uriUnescaped c \<or> c = 0x25)"

definition query_safe :: "nat \<Rightarrow> bool" where
  "query_safe n = (0x20 < n \<and> n \<le> 0x7E \<and> n \<notin> {0x22, 0x23, 0x26, 0x2B, 0x3C, 0x3D, 0x3E, 0x3F})"

text \<open>The improve requests among the requests in flight, and the invariant on them.\<close>

definition improves_in_flight :: "page_state \<Rightarrow> request list" where
  "improves_in_flight s = filter is_improve (in_flight s)"

definition one_improve :: "page_state \<Rightarrow> bool" where
  "one_improve s =
     (length (improves_in_flight s) \<le> 1
      \<and> (improves_in_flight s \<noteq> [] \<longrightarrow> improvementStatus s = improving))"

section \<open>Example inputs\<close>

definition example_data ::
  "jsnum option \<Rightarrow> jsnum option \<Rightarrow> ImprovementSuggestion list option \<Rightarrow>
   VectorAnalysisData option \<Rightarrow> Data" where
  "example_data a b imps va =
     \<lparr>request_id = ascii ''r1'', resume_id = ascii ''cv1'', job_id = ascii ''j1'',
      original_score = a, new_score = b, resume_preview = None,
      details = None, commentary = None, improvements = imps, vector_analysis = va\<rparr>"

text \<open>The binary64 values of the decimals \<open>0.015\<close> and \<open>0.285\<close>.\<close>

definition double_0_015 :: rat where
  "double_0_015 = 1080863910568919 / 72057594037927936"

definition double_0_285 :: rat where
  "double_0_285 = 5134103575202365 / 18014398509481984"

definition example_ctx :: "Data \<Rightarrow> ContextValue" where
  "example_ctx d = ResumePreviewProvider (Some \<lparr>data = d\<rparr>)"

definition suggestions :: "nat \<Rightarrow> ImprovementSuggestion list" where
  "suggestions n = map (\<lambda>i. \<lparr>suggestion = [of_nat i], lineNumber = None\<rparr>) [1..<Suc n]"

definition example_stats :: "jsnum \<Rightarrow> jsnum \<Rightarrow> VectorAnalysisData" where
  "example_stats w t =
     \<lparr>skill_by_skill_analysis = [], coverage_gaps = [], strength_areas = [],
      coverage_statistics =
        \<lparr>high_coverage = Num 0, medium_coverage = Num 0, low_coverage = Num 0,
         total_skills_required = t, well_matched_skills = w, gaps_count = Num 0\<rparr>,
      detailed_recommendations = []\<rparr>"

definition example_form :: "jsstring \<Rightarrow> page_state" where
  "example_form t = (initial_state None)\<lparr>text_value := t\<rparr>"

definition example_response :: "json option \<Rightarrow> json option" where
  "example_response v =
     Some (JObject (case v of None \<Rightarrow> [] | Some x \<Rightarrow> [(ascii ''resume_id'', x)]))"

definition example_file :: FileMetadata where
  "example_file =
     \<lparr>file_name = ascii ''cv.pdf'', file_size = 1000, file_type = ascii ''application/pdf'',
      uploaded = Some True, uploadError = None\<rparr>"

section \<open>Properties\<close>

subsection \<open>The resume previewer context\<close>

text \<open>
  Claim C8. Calling \<open>useResumePreview\<close> with no enclosing \<open>ResumePreviewProvider\<close> throws
  an \<open>Error\<close> whose message is "useResumePreview must be used within ResumePreviewProvider";
  with at least one enclosing provider it returns (never throws) the value of the innermost
  one, which holds that provider's \<open>improvedData\<close> and the setter \<open>setImprovedData\<close>.
\<close>

theorem useResumePreview_provider:
  "useResumePreview [] =
     Inl (Error (ascii ''useResumePreview must be used within ResumePreviewProvider''))
   \<and> useResumePreview (cell # outer) =
       Inr \<lparr>improvedData = cell, setImprovedData = setState\<rparr>"
  by (simp add: useResumePreview_def useContext_def ResumePreviewProvider_def)

subsection \<open>Rounding to binary64\<close>

lemma with_sign_False [simp]: "with_sign False r = Num r"
  by (simp add: with_sign_def)

lemma round_ties_even_nonneg: "0 \<le> x \<Longrightarrow> 0 \<le> round_ties_even x"
  by (auto simp: round_ties_even_def Let_def)

lemma round_ties_even_le:
  assumes "x \<le> of_int M"
  shows "round_ties_even x \<le> M"
proof -
  have fM: "\<lfloor>x\<rfloor> \<le> M" using assms by (simp add: floor_le_iff)
  show ?thesis
  proof (cases "\<lfloor>x\<rfloor> = M")
    case True
    then have "x - of_int \<lfloor>x\<rfloor> \<le> 0" using assms by simp
    then show ?thesis using True by (simp add: round_ties_even_def Let_def)
  next
    case False
    then have "\<lfloor>x\<rfloor> + 1 \<le> M" using fM by simp
    then show ?thesis using fM by (simp add: round_ties_even_def Let_def)
  qed
qed

lemma ilog2_le_52:
  assumes "0 < a" and "a < 2 ^ 53"
  shows "ilog2 a \<le> 52"
proof (cases "1 \<le> a")
  case True
  have "\<lfloor>a\<rfloor> < 2 ^ 53" using assms(2) by (simp add: floor_less_iff)
  then have "bitlen \<lfloor>a\<rfloor> \<le> 53" by (simp add: bitlen_le_iff_power)
  then show ?thesis using True by (simp add: ilog2_def)
next
  case False
  have "0 \<le> bitlen (\<lceil>1 / a\<rceil> - 1)" by (rule bitlen_nonneg)
  then show ?thesis using False by (simp add: ilog2_def)
qed

text \<open>
  Rounding never crosses a natural number below \<open>2 ^ 53\<close>: such a number is itself a
  binary64 value.
\<close>

lemma fl_le_nat:
  assumes "0 \<le> a" and "a \<le> of_nat N" and "N < 2 ^ 53"
  shows "\<exists>r. fl False a = Num r \<and> 0 \<le> r \<and> r \<le> of_nat N"
proof (cases "a = 0")
  case True
  then show ?thesis by (simp add: fl_def)
next
  case False
  then have pos: "0 < a" using assms(1) by simp
  have "a \<le> of_nat N" by fact
  also have bound: "(of_nat N :: rat) < 2 ^ 53" using assms(3)
    by (metis of_nat_less_iff of_nat_numeral of_nat_power)
  finally have lt: "a < 2 ^ 53" .
  define e where "e = max (ilog2 a - 52) (- 1074)"
  define k where "k = nat (- e)"
  have e0: "e \<le> 0" using ilog2_le_52[OF pos lt] by (simp add: e_def)
  have pw: "(2::rat) powi e = 1 / 2 ^ k" using e0
    by (simp add: k_def power_int_def divide_simps)
  define m where "m = round_ties_even (a / 2 powi e)"
  have "a / 2 powi e = a * 2 ^ k" by (simp add: pw)
  also have "\<dots> \<le> of_nat N * 2 ^ k" using assms(2) by simp
  also have "\<dots> = of_int (int N * 2 ^ k)" by simp
  finally have "m \<le> int N * 2 ^ k" unfolding m_def by (rule round_ties_even_le)
  then have "(of_int m :: rat) \<le> of_int (int N * 2 ^ k)" by (simp only: of_int_le_iff)
  then have up: "of_int m * 2 powi e \<le> (of_nat N :: rat)"
    by (simp add: pw divide_simps)
  have "0 \<le> a / 2 powi e" using pos by (simp add: pw)
  then have "0 \<le> m" unfolding m_def by (rule round_ties_even_nonneg)
  then have lo: "0 \<le> of_int m * (2::rat) powi e" by (simp add: pw)
  have "(of_nat N :: rat) < 2 ^ 53" by fact
  also have "\<dots> < 2 powi 1024" by simp
  finally have fin: "\<not> 2 powi 1024 \<le> of_int m * (2::rat) powi e" using up by simp
  have "fl False a = Num (of_int m * 2 powi e)"
    using False fin by (simp add: fl_def Let_def e_def[symmetric] m_def[symmetric])
  then show ?thesis using lo up by blast
qed

text \<open>
  The binary logarithm is not overestimated, and rounding to the closest integer moves a
  number by at most one half; so rounding to binary64 moves a magnitude below \<open>2 ^ 1023\<close>
  by at most its \<open>2 ^ 53\<close>th part, or by \<open>2 ^ - 1075\<close> among the subnormal numbers.
\<close>

lemma ilog2_lower:
  assumes "0 < a"
  shows "2 powi (ilog2 a) \<le> a"
proof (cases "1 \<le> a")
  case True
  define n where "n = \<lfloor>a\<rfloor>"
  have n1: "1 \<le> n" using True by (simp add: n_def le_floor_iff)
  then have n0: "0 < n" by simp
  have "1 \<le> bitlen n" using n1 by (simp add: bitlen_ge_iff_power)
  then have b: "0 \<le> bitlen n - 1" by simp
  have "2 ^ nat (bitlen n - 1) \<le> n" using bitlen_bounds [OF n0] by simp
  then have "(of_int (2 ^ nat (bitlen n - 1)) :: rat) \<le> of_int n" by (simp only: of_int_le_iff)
  also have "\<dots> \<le> a" by (simp add: n_def)
  finally have "(2::rat) ^ nat (bitlen n - 1) \<le> a" by simp
  moreover have "(2::rat) powi (bitlen n - 1) = 2 ^ nat (bitlen n - 1)"
    using b by (simp add: power_int_def)
  ultimately show ?thesis using True by (simp add: ilog2_def n_def)
next
  case False
  define c where "c = \<lceil>1 / a\<rceil>"
  define k where "k = nat (bitlen (c - 1))"
  have "1 < 1 / a" using False assms by simp
  then have c2: "2 \<le> c" unfolding c_def by (simp add: le_ceiling_iff)
  then have c0: "0 < c - 1" by simp
  have kb: "bitlen (c - 1) = int k" unfolding k_def using bitlen_nonneg [of "c - 1"] by simp
  have "c - 1 < 2 ^ k" using bitlen_bounds [OF c0] by (simp add: k_def)
  then have "c \<le> 2 ^ k" by simp
  then have "(of_int c :: rat) \<le> of_int (2 ^ k)" by (simp only: of_int_le_iff)
  then have "(of_int c :: rat) \<le> 2 ^ k" by simp
  moreover have "1 / a \<le> of_int c" by (simp add: c_def)
  ultimately have "1 / a \<le> 2 ^ k" by linarith
  then have "1 / 2 ^ k \<le> a" using assms by (simp add: field_simps)
  moreover have "(2::rat) powi (- int k) = 1 / 2 ^ k"
    by (simp add: power_int_def divide_simps)
  ultimately show ?thesis using False by (simp add: ilog2_def c_def[symmetric] kb)
qed

lemma round_ties_even_error: "\<bar>of_int (round_ties_even x) - x\<bar> \<le> 1 / 2"
proof -
  have "of_int \<lfloor>x\<rfloor> \<le> x" "x < of_int \<lfloor>x\<rfloor> + 1" by linarith+
  then show ?thesis by (auto simp: round_ties_even_def Let_def) 
qed

lemma fl_error:
  assumes "0 \<le> a" and "a < 2 ^ 1023"
  shows "\<exists>r. fl s a = with_sign s r \<and> 0 \<le> r \<and> \<bar>r - a\<bar> \<le> a / 2 ^ 53 + 1 / 2 ^ 1075"
proof (cases "a = 0")
  case True
  then show ?thesis by (auto simp: fl_def)
next
  case False
  then have pos: "0 < a" using assms(1) by simp
  define e where "e = max (ilog2 a - 52) (- 1074)"
  define P :: rat where "P = 2 powi e"
  define m where "m = round_ties_even (a / P)"
  define r where "r = of_int m * P"
  have P0: "0 < P" by (simp add: P_def)
  have "(2::rat) powi (ilog2 a - 52) = 2 powi ilog2 a / 2 powi 52"
    by (simp add: power_int_diff)
  also have "\<dots> = 2 powi ilog2 a / 2 ^ 52" by simp
  also have "\<dots> \<le> a / 2 ^ 52" using ilog2_lower [OF pos] by (simp add: divide_right_mono)
  finally have 1: "(2::rat) powi (ilog2 a - 52) \<le> a / 2 ^ 52" .
  have 2: "(2::rat) powi (- 1074) = 1 / 2 ^ 1074" by (simp add: power_int_def divide_simps)
  have "P = 2 powi (ilog2 a - 52) \<or> P = 2 powi (- 1074)"
    unfolding P_def e_def by (simp add: max_def)
  then have Pb: "P \<le> a / 2 ^ 52 + 1 / 2 ^ 1074" using 1 2 pos by auto
  have "\<bar>of_int m - a / P\<bar> \<le> 1 / 2" unfolding m_def by (rule round_ties_even_error)
  then have "\<bar>of_int m - a / P\<bar> * P \<le> 1 / 2 * P"
    using P0 by (simp only: mult_le_cancel_right_pos)
  moreover have "\<bar>of_int m - a / P\<bar> * P = \<bar>r - a\<bar>"
  proof -
    have "\<bar>of_int m - a / P\<bar> * P = \<bar>(of_int m - a / P) * P\<bar>"
      using P0 by (simp add: abs_mult)
    also have "(of_int m - a / P) * P = r - a" using P0 by (simp add: r_def field_simps)
    finally show ?thesis .
  qed
  ultimately have "\<bar>r - a\<bar> \<le> P / 2" by simp
  then have err: "\<bar>r - a\<bar> \<le> a / 2 ^ 53 + 1 / 2 ^ 1075" using Pb by simp
  have "0 \<le> a / P" using pos P0 by simp
  then have "0 \<le> m" unfolding m_def by (rule round_ties_even_nonneg)
  then have r0: "0 \<le> r" using P0 by (simp add: r_def)
  have "r < 2 ^ 1024" using err assms(2) by simp
  then have fin: "\<not> 2 powi 1024 \<le> r" by simp
  have "fl s a = with_sign s r"
    using False fin
    by (simp add: fl_def Let_def e_def[symmetric] P_def[symmetric] m_def[symmetric]
        r_def[symmetric])
  then show ?thesis using r0 err by blast
qed

text \<open>A whole number below \<open>2 ^ 53\<close> is a binary64 value: rounding leaves it as it is.\<close>

lemma round_ties_even_of_int: "round_ties_even (of_int M) = M"
  by (simp add: round_ties_even_def)

lemma fl_whole:
  assumes "0 < N" and "N < 2 ^ 53"
  shows "fl s (of_int N) = Num (if s then - of_int N else of_int N)"
proof -
  define a :: rat where "a = of_int N"
  have pos: "0 < a" using assms(1) by (simp add: a_def)
  have "(of_int N :: rat) < of_int (2 ^ 53)" using assms(2) by (simp only: of_int_less_iff)
  then have lt: "a < 2 ^ 53" by (simp add: a_def)
  define e where "e = max (ilog2 a - 52) (- 1074)"
  define k where "k = nat (- e)"
  have e0: "e \<le> 0" using ilog2_le_52[OF pos lt] by (simp add: e_def)
  have pw: "(2::rat) powi e = 1 / 2 ^ k" using e0
    by (simp add: k_def power_int_def divide_simps)
  have "a / 2 powi e = of_int (N * 2 ^ k)" by (simp add: pw a_def)
  then have "round_ties_even (a / 2 powi e) = N * 2 ^ k"
    by (simp only: round_ties_even_of_int)
  then have r: "of_int (round_ties_even (a / 2 powi e)) * 2 powi e = a"
    by (simp add: pw a_def)
  have "a < 2 powi 1024" using lt by simp
  then have "fl s a = with_sign s a"
    using pos r by (simp add: fl_def Let_def e_def[symmetric])
  then show ?thesis using pos by (simp add: with_sign_def a_def)
qed

lemma negative_with_sign: "0 \<le> r \<Longrightarrow> negative (with_sign s r) = s"
  by (auto simp: with_sign_def)

lemma magnitude_with_sign: "0 \<le> r \<Longrightarrow> magnitude (with_sign s r) = r"
  by (auto simp: with_sign_def)

lemma js_mul_with_sign_100:
  assumes "0 \<le> r"
  shows "js_mul (with_sign s r) (Num 100) = fl s (r * 100)"
proof -
  have "with_sign s r \<noteq> NaN" "\<not> is_infinite (with_sign s r)"
    by (auto simp: with_sign_def)
  then show ?thesis
    using negative_with_sign [OF assms] magnitude_with_sign [OF assms]
    by (simp add: js_mul_def)
qed

lemma toFixed0_with_sign:
  assumes "0 \<le> r" and "r < 10 ^ 21"
  shows "toFixed0 (with_sign s r) = Digits (s \<and> r \<noteq> 0) (nat \<lfloor>r + 1 / 2\<rfloor>)"
  using assms by (auto simp: with_sign_def)

lemma Math_round_with_sign:
  assumes "0 \<le> r"
  shows "Math_round (with_sign s r) = Num (of_int \<lfloor>(if s then - r else r) + 1 / 2\<rfloor>)
       \<or> \<lfloor>(if s then - r else r) + 1 / 2\<rfloor> = 0 \<and> Math_round (with_sign s r) = NegZero"
proof -
  have "\<lfloor>(1::rat) / 2\<rfloor> = 0" by (rule floor_unique) simp_all
  then show ?thesis using assms by (auto simp: with_sign_def Let_def)
qed

lemma percent_rounded:
  assumes "\<bar>p\<bar> \<le> 10 ^ 13"
  shows "\<exists>x m. \<bar>x - 100 * p\<bar> \<le> 100 * \<bar>p\<bar> / 2 ^ 53 + 1 / 2 ^ 1075
             \<and> of_int m \<le> x + 1 / 2 \<and> x + 1 / 2 < of_int m + 1
             \<and> \<bar>m\<bar> \<le> 2 ^ 51
             \<and> (Math_round (js_mul (Num p) (Num 100)) = Num (of_int m)
                \<or> m = 0 \<and> Math_round (js_mul (Num p) (Num 100)) = NegZero)"
proof -
  define a where "a = \<bar>p\<bar> * 100"
  have a: "0 \<le> a" "a \<le> 10 ^ 15" using assms by (simp_all add: a_def)
  then have "a < 2 ^ 1023" by simp
  from fl_error [OF a(1) this, of "p < 0"] obtain r
    where r: "fl (p < 0) a = with_sign (p < 0) r" "0 \<le> r"
      "\<bar>r - a\<bar> \<le> a / 2 ^ 53 + 1 / 2 ^ 1075"
    by blast
  define x where "x = (if p < 0 then - r else r)"
  define m where "m = \<lfloor>x + 1 / 2\<rfloor>"
  have m: "js_mul (Num p) (Num 100) = with_sign (p < 0) r"
    using r(1) by (simp add: js_mul_def a_def)
  have "x - 100 * p = r - a \<or> x - 100 * p = - (r - a)" by (auto simp: x_def a_def)
  then have "\<bar>x - 100 * p\<bar> = \<bar>r - a\<bar>" by auto
  then have 1: "\<bar>x - 100 * p\<bar> \<le> 100 * \<bar>p\<bar> / 2 ^ 53 + 1 / 2 ^ 1075"
    using r(3) by (simp add: a_def)
  have 2: "of_int m \<le> x + 1 / 2" "x + 1 / 2 < of_int m + 1"
    unfolding m_def by linarith+
  have "\<bar>x\<bar> \<le> 10 ^ 15 + 1" using r(2,3) a by (simp add: x_def)
  then have "\<bar>of_int m :: rat\<bar> \<le> 10 ^ 15 + 2" using 2 by linarith
  then have "\<bar>of_int m :: rat\<bar> \<le> of_int (2 ^ 51)" by simp
  then have "(of_int \<bar>m\<bar> :: rat) \<le> of_int (2 ^ 51)" by (simp only: of_int_abs)
  then have 3: "\<bar>m\<bar> \<le> 2 ^ 51" by (simp only: of_int_le_iff)
  have 4: "Math_round (js_mul (Num p) (Num 100)) = Num (of_int m)
         \<or> m = 0 \<and> Math_round (js_mul (Num p) (Num 100)) = NegZero"
    unfolding m m_def x_def using r(2) by (rule Math_round_with_sign)
  show ?thesis using 1 2 3 4 by blast
qed

lemma whole_difference:
  assumes "d1 = Num (of_int m) \<or> m = 0 \<and> d1 = NegZero"
    and "d2 = Num (of_int n) \<or> n = 0 \<and> d2 = NegZero"
    and "\<bar>m\<bar> \<le> 2 ^ 51" and "\<bar>n\<bar> \<le> 2 ^ 51"
  shows "(if strict_eq (js_sub d2 d1) (Num 0) then None
          else Some (js_gt (js_sub d2 d1) (Num 0), js_sub d2 d1)) =
         (if n = m then None else Some (m < n, Num (of_int (n - m))))"
proof -
  have v: "val d1 = of_int m" "val d2 = of_int n" using assms(1,2) by auto
  have f: "d2 \<noteq> NaN" "\<not> is_infinite d2" "js_neg d1 \<noteq> NaN" "\<not> is_infinite (js_neg d1)"
    "val (js_neg d1) = - of_int m"
    using assms(1,2) by (auto split: if_splits)
  show ?thesis
  proof (cases "n = m")
    case True
    then have "js_sub d2 d1 = with_sign (negative d2 \<and> negative (js_neg d1)) 0"
      using f v by (simp add: js_sub_def js_add_def)
    then show ?thesis using True by (simp add: with_sign_def strict_eq_def)
  next
    case False
    define N where "N = \<bar>n - m\<bar>"
    have N: "0 < N" "N < 2 ^ 53" using False assms(3,4) by (simp_all add: N_def)
    have "\<bar>of_int n + - of_int m :: rat\<bar> = of_int N" by (simp add: N_def)
    then have "js_sub d2 d1 = fl (n < m) (of_int N)"
      using f v False by (simp add: js_sub_def js_add_def)
    also have "\<dots> = Num (if n < m then - of_int N else of_int N)"
      using N by (rule fl_whole)
    also have "\<dots> = Num (of_int (n - m))" by (simp add: N_def)
    finally have "js_sub d2 d1 = Num (of_int (n - m))" .
    then show ?thesis using False by (simp add: strict_eq_def js_gt_def)
  qed
qed

subsection \<open>The dashboard page\<close>

text \<open>
  Claim C1. For every analysis result whose two scores the backend provided, the score card
  of the dashboard shows \<open>Math.round(original_score * 100)\<close> and
  \<open>Math.round(new_score * 100)\<close> (binary64 arithmetic), the analysis card of the metrics
  tab shows the same new percentage, and the change shown, when one is shown (it is left out
  when it is \<open>0\<close>), is the difference of the two rounded percentages. In terms of the
  numbers alone, for finite scores \<open>p\<close> and \<open>q\<close> of magnitude up to \<open>10 ^ 13\<close>: the
  percentages shown are the whole numbers \<open>m\<close> and \<open>n\<close> with \<open>m \<le> x + 1 / 2 < m + 1\<close> and \<open>n \<le> y + 1 / 2 < n + 1\<close> (the closest ones, the
  larger one in a tie), where \<open>x\<close> and \<open>y\<close> are the binary64 products, which differ from
  \<open>100 * p\<close> and \<open>100 * q\<close> by their \<open>2 ^ 53\<close>th part at most (or by \<open>2 ^ - 1075\<close>);
  a zero percentage of a negative score is the negative zero; and the change is exactly
  \<open>n - m\<close>, shown as positive when \<open>m < n\<close> and left out when \<open>n = m\<close>.
\<close>

theorem dashboard_score_percentages:
  assumes "improvedData ctx = Some r"
    and "original_score (data r) = Some a"
    and "new_score (data r) = Some b"
  shows "\<exists>v c v' props preview.
            DashboardPage ctx t = Analysis v \<and> score_card v = Some c
          \<and> card_original c = Math_round (js_mul a (Num 100))
          \<and> card_new c = Math_round (js_mul b (Num 100))
          \<and> card_change c =
              (let d = js_sub (card_new c) (card_original c)
               in if strict_eq d (Num 0) then None else Some (js_gt d (Num 0), d))
          \<and> DashboardPage ctx metrics = Analysis v' \<and> right v' = MetricsPanel props preview
          \<and> score props = card_new c
          \<and> (\<forall>p q. a = Num p \<and> b = Num q \<and> \<bar>p\<bar> \<le> 10 ^ 13 \<and> \<bar>q\<bar> \<le> 10 ^ 13 \<longrightarrow>
                (\<exists>x y m n.
                    \<bar>x - 100 * p\<bar> \<le> 100 * \<bar>p\<bar> / 2 ^ 53 + 1 / 2 ^ 1075
                  \<and> \<bar>y - 100 * q\<bar> \<le> 100 * \<bar>q\<bar> / 2 ^ 53 + 1 / 2 ^ 1075
                  \<and> of_int m \<le> x + 1 / 2 \<and> x + 1 / 2 < of_int m + 1
                  \<and> of_int n \<le> y + 1 / 2 \<and> y + 1 / 2 < of_int n + 1
                  \<and> (card_original c = Num (of_int m) \<or> m = 0 \<and> card_original c = NegZero)
                  \<and> (card_new c = Num (of_int n) \<or> n = 0 \<and> card_new c = NegZero)
                  \<and> card_change c =
                      (if n = m then None else Some (m < n, Num (of_int (n - m))))))"
proof -
  define d where "d = data r"
  define c where
    "c = \<lparr>card_original = originalPct d, card_new = newPct d,
          card_change = (if \<not> strict_eq (improvementPct d) (Num 0)
                         then Some (js_gt (improvementPct d) (Num 0), improvementPct d)
                         else None)\<rparr>"
  have o: "originalPct d = Math_round (js_mul a (Num 100))"
    using assms(2) by (simp add: originalPct_def nullish_def d_def)
  have n: "newPct d = Math_round (js_mul b (Num 100))"
    using assms(3) by (simp add: newPct_def nullish_def d_def)
  have i: "improvementPct d = js_sub (card_new c) (card_original c)"
    by (simp add: improvementPct_def c_def)
  have ch: "card_change c =
      (let d = js_sub (card_new c) (card_original c)
       in if strict_eq d (Num 0) then None else Some (js_gt d (Num 0), d))"
    unfolding i [symmetric] by (simp add: c_def Let_def)
  have 1: "\<exists>v. DashboardPage ctx t = Analysis v \<and> score_card v = Some c"
    using assms by (simp add: DashboardPage_def Let_def c_def d_def)
  have 2: "\<exists>v' props preview.
      DashboardPage ctx metrics = Analysis v' \<and> right v' = MetricsPanel props preview
      \<and> score props = card_new c"
    using assms by (simp add: DashboardPage_def Let_def c_def d_def)
  have 3: "\<exists>x y m n.
        \<bar>x - 100 * p\<bar> \<le> 100 * \<bar>p\<bar> / 2 ^ 53 + 1 / 2 ^ 1075
      \<and> \<bar>y - 100 * q\<bar> \<le> 100 * \<bar>q\<bar> / 2 ^ 53 + 1 / 2 ^ 1075
      \<and> of_int m \<le> x + 1 / 2 \<and> x + 1 / 2 < of_int m + 1
      \<and> of_int n \<le> y + 1 / 2 \<and> y + 1 / 2 < of_int n + 1
      \<and> (card_original c = Num (of_int m) \<or> m = 0 \<and> card_original c = NegZero)
      \<and> (card_new c = Num (of_int n) \<or> n = 0 \<and> card_new c = NegZero)
      \<and> card_change c = (if n = m then None else Some (m < n, Num (of_int (n - m))))"
    if pq: "a = Num p" "b = Num q" "\<bar>p\<bar> \<le> 10 ^ 13" "\<bar>q\<bar> \<le> 10 ^ 13" for p q
  proof -
    from percent_rounded [OF pq(3)] obtain x m where
      x: "\<bar>x - 100 * p\<bar> \<le> 100 * \<bar>p\<bar> / 2 ^ 53 + 1 / 2 ^ 1075"
        "of_int m \<le> x + 1 / 2" "x + 1 / 2 < of_int m + 1" "\<bar>m\<bar> \<le> 2 ^ 51"
      and m: "Math_round (js_mul (Num p) (Num 100)) = Num (of_int m)
            \<or> m = 0 \<and> Math_round (js_mul (Num p) (Num 100)) = NegZero"
      by blast
    from percent_rounded [OF pq(4)] obtain y n where
      y: "\<bar>y - 100 * q\<bar> \<le> 100 * \<bar>q\<bar> / 2 ^ 53 + 1 / 2 ^ 1075"
        "of_int n \<le> y + 1 / 2" "y + 1 / 2 < of_int n + 1" "\<bar>n\<bar> \<le> 2 ^ 51"
      and n': "Math_round (js_mul (Num q) (Num 100)) = Num (of_int n)
            \<or> n = 0 \<and> Math_round (js_mul (Num q) (Num 100)) = NegZero"
      by blast
    have co: "card_original c = Num (of_int m) \<or> m = 0 \<and> card_original c = NegZero"
      using m by (simp add: c_def o pq(1))
    have cn: "card_new c = Num (of_int n) \<or> n = 0 \<and> card_new c = NegZero"
      using n' by (simp add: c_def n pq(2))
    have "card_change c = (if n = m then None else Some (m < n, Num (of_int (n - m))))"
      unfolding ch Let_def using co cn x(4) y(4) by (rule whole_difference)
    then show ?thesis using x(1-3) y(1-3) co cn by blast
  qed
  have co: "card_original c = Math_round (js_mul a (Num 100))" by (simp add: c_def o)
  have cn: "card_new c = Math_round (js_mul b (Num 100))" by (simp add: c_def n)
  from 1 obtain v where v: "DashboardPage ctx t = Analysis v" "score_card v = Some c"
    by blast
  from 2 obtain v' props preview where
    v': "DashboardPage ctx metrics = Analysis v'" "right v' = MetricsPanel props preview"
      "score props = card_new c"
    by blast
  show ?thesis
    apply (rule exI [of _ v], rule exI [of _ c], rule exI [of _ v'], rule exI [of _ props],
        rule exI [of _ preview])
    using v v' co cn ch 3 by blast
qed

lemma percent_of_0_015:
  "Math_round (js_mul (Num double_0_015) (Num 100)) = Num 2"
  by code_simp

lemma percent_of_0_285:
  "Math_round (js_mul (Num double_0_285) (Num 100)) = Num 28"
  by code_simp

text \<open>
  The scores \<open>0.015\<close> and \<open>0.285\<close>: the products are \<open>1.5\<close> and
  \<open>28.499999999999996\<close>, and the card shows 2, 28 and a change of +26.
\<close>

theorem dashboard_score_percentages_witness:
  "\<exists>v c. DashboardPage
            (example_ctx (example_data (Some (Num double_0_015)) (Some (Num double_0_285))
               None None))
            resume = Analysis v
     \<and> score_card v = Some c \<and> card_original c = Num 2 \<and> card_new c = Num 28
     \<and> card_change c = Some (True, Num 26)"
proof -
  let ?d = "example_data (Some (Num double_0_015)) (Some (Num double_0_285)) None None"
  have p: "improvedData (example_ctx ?d) = Some \<lparr>data = ?d\<rparr>"
    "original_score (data \<lparr>data = ?d\<rparr>) = Some (Num double_0_015)"
    "new_score (data \<lparr>data = ?d\<rparr>) = Some (Num double_0_285)"
    by (simp_all add: example_ctx_def example_data_def ResumePreviewProvider_def)
  from dashboard_score_percentages [OF p, of resume] obtain v c where
    v: "DashboardPage (example_ctx ?d) resume = Analysis v" "score_card v = Some c"
    and o: "card_original c = Math_round (js_mul (Num double_0_015) (Num 100))"
    and n: "card_new c = Math_round (js_mul (Num double_0_285) (Num 100))"
    and ch: "card_change c =
      (let d = js_sub (card_new c) (card_original c)
       in if strict_eq d (Num 0) then None else Some (js_gt d (Num 0), d))"
    by blast
  have s: "js_sub (Num 28) (Num 2) = Num 26" by code_simp
  have g: "\<not> strict_eq (Num 26) (Num 0)" "js_gt (Num 26) (Num 0)"
    by (simp_all add: strict_eq_def js_gt_def)
  have "card_original c = Num 2" "card_new c = Num 28"
    using o n by (simp_all only: percent_of_0_015 percent_of_0_285)
  moreover from this have "card_change c = Some (True, Num 26)"
    using ch by (simp add: s g)
  ultimately show ?thesis using v by blast
qed

text \<open>
  Claim C10. When the improvements list is present and not empty, the quick preview of the
  metrics tab shows the first three entries of the list (all of them when there are fewer),
  in their order; when the list has more than three entries it also shows the number of the
  remaining ones, the length of the list minus three, and otherwise no such number.
\<close>

theorem quick_preview_first_three:
  assumes "improvedData ctx = Some r"
    and "improvements (data r) = Some xs"
    and "xs \<noteq> []"
  shows "\<exists>v p q.
           DashboardPage ctx metrics = Analysis v \<and> right v = MetricsPanel p (Some q)
         \<and> items q = map preview_item (take 3 xs)
         \<and> map item_text (items q) = take 3 (map suggestion xs)
         \<and> length (items q) = min 3 (length xs)
         \<and> remaining q = (if 3 < length xs then Some (length xs - 3) else None)"
  using assms
  by (simp add: DashboardPage_def Let_def quick_preview_def slice_0_3_def preview_item_def
      take_map o_def)

theorem quick_preview_first_three_witness:
  "\<exists>v p q.
     DashboardPage (example_ctx (example_data None None (Some (suggestions 5)) None)) metrics
       = Analysis v
   \<and> right v = MetricsPanel p (Some q)
   \<and> map item_text (items q) = [[1], [2], [3]]
   \<and> remaining q = Some 2"
proof -
  let ?d = "example_data None None (Some (suggestions 5)) None"
  have s: "suggestions 5 =
      map (\<lambda>i. \<lparr>suggestion = [of_nat i], lineNumber = None\<rparr>) [1, 2, 3, 4, 5]"
    by (simp add: suggestions_def upt_rec)
  from quick_preview_first_three [of "example_ctx ?d" "\<lparr>data = ?d\<rparr>" "suggestions 5"]
  show ?thesis
    by (simp add: example_ctx_def example_data_def ResumePreviewProvider_def s)
      (auto simp: numeral_2_eq_2)
qed

subsection \<open>The vector-analysis card\<close>

lemma js_div_zero_total:
  "is_zero t \<Longrightarrow>
   js_div w t = (if is_zero w \<or> w = NaN then NaN else Infinity (negative w \<noteq> negative t))"
  by (cases t; cases w) (auto simp: js_div_def)

lemma js_mul_100_special:
  "js_mul NaN (Num 100) = NaN" "js_mul (Infinity s) (Num 100) = Infinity s"
  by (simp_all add: js_mul_def)

lemma coverage_within_bounds:
  assumes "0 \<le> p" and "p \<le> q" and "0 < q"
  shows "\<exists>n\<le>100. toFixed0 (js_mul (js_div (Num p) (Num q)) (Num 100)) = Digits False n"
proof -
  have "0 \<le> p / q" "p / q \<le> of_nat 1" using assms by simp_all
  from fl_le_nat [OF this] obtain r1
    where r1: "fl False (p / q) = Num r1" "0 \<le> r1" "r1 \<le> 1"
    by auto
  have d: "js_div (Num p) (Num q) = Num r1" using assms r1(1) by (simp add: js_div_def)
  have "0 \<le> r1 * 100" "r1 * 100 \<le> of_nat 100" using r1 by simp_all
  from fl_le_nat [OF this] obtain r2
    where r2: "fl False (r1 * 100) = Num r2" "0 \<le> r2" "r2 \<le> 100"
    by auto
  have m: "js_mul (Num r1) (Num 100) = Num r2" using r1 r2(1) by (simp add: js_mul_def)
  have "\<lfloor>r2 + 1 / 2\<rfloor> \<le> 100" using r2(3) by (simp add: floor_le_iff)
  then have "nat \<lfloor>r2 + 1 / 2\<rfloor> \<le> 100" by linarith
  moreover have "toFixed0 (Num r2) = Digits False (nat \<lfloor>r2 + 1 / 2\<rfloor>)"
    using r2 by simp
  ultimately show ?thesis using d m by auto
qed

lemma coverage_not_NaN:
  assumes "w = Num p \<or> w = NegZero" and "q \<noteq> 0"
  shows "toFixed0 (js_mul (js_div w (Num q)) (Num 100)) \<noteq> TextNaN"
proof -
  have f: "fl s a \<noteq> NaN" for s a by (simp add: fl_def with_sign_def Let_def)
  have "js_div w (Num q) \<noteq> NaN" using assms by (auto simp: js_div_def f)
  then have "js_mul (js_div w (Num q)) (Num 100) \<noteq> NaN"
    by (cases "js_div w (Num q)") (simp_all add: js_mul_def f)
  then show ?thesis
    by (cases "js_mul (js_div w (Num q)) (Num 100)") simp_all
qed

lemma coverage_accuracy:
  assumes "w = Num p \<or> p = 0 \<and> w = NegZero"
    and "q \<noteq> 0"
    and "\<bar>p / q\<bar> \<le> 10 ^ 18"
  shows "\<exists>sg n. toFixed0 (js_mul (js_div w (Num q)) (Num 100)) = Digits sg n
             \<and> (sg \<longrightarrow> (p < 0) \<noteq> (q < 0))
             \<and> \<bar>of_nat n - 100 * \<bar>p / q\<bar>\<bar> \<le> 1 / 2 + 100 * \<bar>p / q\<bar> / 2 ^ 51 + 1 / 2 ^ 1000"
proof -
  define s where "s = (negative w \<noteq> (q < 0))"
  define a where "a = \<bar>p / q\<bar>"
  have w: "w \<noteq> NaN" "\<not> is_infinite w" "magnitude w = \<bar>p\<bar>" using assms(1) by auto
  have d: "js_div w (Num q) = fl s a"
    using w assms(2) by (simp add: js_div_def s_def a_def)
  show ?thesis
  proof (cases "p = 0")
    case True
    then have "js_div w (Num q) = with_sign s 0" using d by (simp add: a_def fl_def)
    then have "js_mul (js_div w (Num q)) (Num 100) = with_sign s 0"
      by (simp add: js_mul_with_sign_100 fl_def)
    then have "toFixed0 (js_mul (js_div w (Num q)) (Num 100)) = Digits False 0"
      by (simp add: toFixed0_with_sign)
    then show ?thesis using True by (intro exI [of _ False] exI [of _ 0]) simp
  next
    case False
    then have s: "s = ((p < 0) \<noteq> (q < 0))" using assms(1) by (auto simp: s_def)
    have a: "0 \<le> a" "a \<le> 10 ^ 18" using assms(3) by (simp_all add: a_def)
    then have "a < 2 ^ 1023" by simp
    from fl_error [OF a(1) this, of s] obtain r1
      where r1: "fl s a = with_sign s r1" "0 \<le> r1"
        "\<bar>r1 - a\<bar> \<le> a / 2 ^ 53 + 1 / 2 ^ 1075"
      by blast
    have b: "0 \<le> r1 * 100" using r1(2) by simp
    have "r1 * 100 \<le> 10 ^ 21" using r1(3) a by simp
    then have "r1 * 100 < 2 ^ 1023" by simp
    from fl_error [OF b this, of s] obtain r2
      where r2: "fl s (r1 * 100) = with_sign s r2" "0 \<le> r2"
        "\<bar>r2 - r1 * 100\<bar> \<le> r1 * 100 / 2 ^ 53 + 1 / 2 ^ 1075"
      by blast
    have m: "js_mul (js_div w (Num q)) (Num 100) = with_sign s r2"
      unfolding d r1(1) using r1(2) r2(1) by (simp add: js_mul_with_sign_100)
    have lt: "r2 < 10 ^ 21" using r2(3) r1(3) a by simp
    define n where "n = nat \<lfloor>r2 + 1 / 2\<rfloor>"
    have t: "toFixed0 (js_mul (js_div w (Num q)) (Num 100)) = Digits (s \<and> r2 \<noteq> 0) n"
      unfolding m n_def using r2(2) lt by (rule toFixed0_with_sign)
    have "0 \<le> \<lfloor>r2 + 1 / 2\<rfloor>" using r2(2) by simp
    then have "(of_nat n :: rat) = of_int \<lfloor>r2 + 1 / 2\<rfloor>" by (simp add: n_def)
    then have h: "of_nat n - r2 \<le> 1 / 2" "r2 - of_nat n \<le> 1 / 2" by linarith+
    define t :: rat where "t = 1 / 2 ^ 1075"
    define T :: rat where "T = 1 / 2 ^ 1000"
    have tT: "0 \<le> t" "102 * t \<le> T" by (simp_all add: t_def T_def)
    have b1: "r2 - r1 * 100 \<le> r1 * 100 / 2 ^ 53 + t" "r1 * 100 - r2 \<le> r1 * 100 / 2 ^ 53 + t"
      using r2(3) unfolding t_def by linarith+
    have b2: "r1 - a \<le> a / 2 ^ 53 + t" "a - r1 \<le> a / 2 ^ 53 + t"
      using r1(3) unfolding t_def by linarith+
    have "of_nat n - 100 * a \<le> 1 / 2 + 100 * a / 2 ^ 51 + T"
      "100 * a - of_nat n \<le> 1 / 2 + 100 * a / 2 ^ 51 + T"
      using tT b1 b2 h a(1) by simp_all
    then have "\<bar>of_nat n - 100 * a\<bar> \<le> 1 / 2 + 100 * a / 2 ^ 51 + 1 / 2 ^ 1000"
      unfolding T_def by linarith
    then show ?thesis using t s unfolding a_def by blast
  qed
qed

text \<open>
  Claim C9, as stated: with \<open>total_skills_required = 0\<close> the quotient is not-a-number. It
  is not when \<open>well_matched_skills\<close> is not zero: \<open>3 / 0\<close> is \<open>Infinity\<close>, and the figure
  shown is "Infinity".
\<close>

theorem overall_coverage_zero_total_counterexample:
  "total_skills_required (coverage_statistics (example_stats (Num 3) (Num 0))) = Num 0
   \<and> js_div (well_matched_skills (coverage_statistics (example_stats (Num 3) (Num 0))))
             (total_skills_required (coverage_statistics (example_stats (Num 3) (Num 0))))
       = Infinity False
   \<and> Infinity False \<noteq> NaN
   \<and> shown_overall (VectorAnalysis_statistics (example_stats (Num 3) (Num 0)))
       = TextInfinity False"
  by (simp add: example_stats_def VectorAnalysis_statistics_def js_div_def js_mul_def)

text \<open>
  Claim C9, amended. The overall-coverage figure is
  \<open>((well_matched_skills / total_skills_required) * 100).toFixed(0)\<close>, computed in
  binary64 with no guard on the division. When \<open>total_skills_required\<close> is a zero the
  quotient is NaN if \<open>well_matched_skills\<close> is a zero or NaN, and an infinity otherwise, and
  the figure shown is "NaN", "Infinity" or "-Infinity" accordingly. When
  \<open>total_skills_required\<close> is a finite number \<open>q\<close> other than zero and
  \<open>well_matched_skills\<close> a finite number \<open>p\<close> (or the negative zero), the figure is
  never "NaN"; when moreover the quotient has a magnitude of \<open>10 ^ 18\<close> at most, the
  figure is the decimal text of a whole number \<open>n\<close>,
  with a minus sign only when the quotient is negative, and \<open>n\<close> differs from
  \<open>100 * \<bar>p / q\<bar>\<close> by at most \<open>1 / 2 + 100 * \<bar>p / q\<bar> / 2 ^ 51 + 1 / 2 ^ 1000\<close>: the
  rounding to zero decimals and the two roundings to binary64. When moreover
  \<open>0 \<le> p \<le> q\<close>, the number is from 0 to 100.
\<close>

theorem overall_coverage_unguarded:
  fixes va :: VectorAnalysisData
  defines "w \<equiv> well_matched_skills (coverage_statistics va)"
    and "t \<equiv> total_skills_required (coverage_statistics va)"
  shows "shown_overall (VectorAnalysis_statistics va) = toFixed0 (js_mul (js_div w t) (Num 100))
       \<and> (is_zero t \<longrightarrow>
            js_div w t =
              (if is_zero w \<or> w = NaN then NaN else Infinity (negative w \<noteq> negative t))
          \<and> shown_overall (VectorAnalysis_statistics va) =
              (if is_zero w \<or> w = NaN then TextNaN
               else TextInfinity (negative w \<noteq> negative t)))
       \<and> (\<forall>p q. (w = Num p \<or> w = NegZero) \<and> t = Num q \<and> q \<noteq> 0 \<longrightarrow>
            shown_overall (VectorAnalysis_statistics va) \<noteq> TextNaN)
       \<and> (\<forall>p q. (w = Num p \<or> p = 0 \<and> w = NegZero) \<and> t = Num q \<and> q \<noteq> 0
                \<and> \<bar>p / q\<bar> \<le> 10 ^ 18 \<longrightarrow>
            (\<exists>sg n. shown_overall (VectorAnalysis_statistics va) = Digits sg n
                  \<and> (sg \<longrightarrow> (p < 0) \<noteq> (q < 0))
                  \<and> \<bar>of_nat n - 100 * \<bar>p / q\<bar>\<bar>
                      \<le> 1 / 2 + 100 * \<bar>p / q\<bar> / 2 ^ 51 + 1 / 2 ^ 1000))
       \<and> (\<forall>p q. w = Num p \<and> t = Num q \<and> 0 \<le> p \<and> p \<le> q \<and> 0 < q \<longrightarrow>
            (\<exists>n\<le>100. shown_overall (VectorAnalysis_statistics va) = Digits False n))"
proof -
  have 1: "shown_overall (VectorAnalysis_statistics va)
      = toFixed0 (js_mul (js_div w t) (Num 100))"
    by (simp add: VectorAnalysis_statistics_def w_def t_def)
  have 2: "js_div w t =
      (if is_zero w \<or> w = NaN then NaN else Infinity (negative w \<noteq> negative t))"
    if "is_zero t" using that by (rule js_div_zero_total)
  have 3: "\<exists>n\<le>100. shown_overall (VectorAnalysis_statistics va) = Digits False n"
    if "w = Num p" "t = Num q" "0 \<le> p" "p \<le> q" "0 < q" for p q
    using coverage_within_bounds [OF that(3-5)] that(1,2) 1 by simp
  have 4: "\<exists>sg n. shown_overall (VectorAnalysis_statistics va) = Digits sg n
      \<and> (sg \<longrightarrow> (p < 0) \<noteq> (q < 0))
      \<and> \<bar>of_nat n - 100 * \<bar>p / q\<bar>\<bar> \<le> 1 / 2 + 100 * \<bar>p / q\<bar> / 2 ^ 51 + 1 / 2 ^ 1000"
    if "w = Num p \<or> p = 0 \<and> w = NegZero" "t = Num q" "q \<noteq> 0" "\<bar>p / q\<bar> \<le> 10 ^ 18" for p q
    using coverage_accuracy [OF that(1,3,4)] unfolding 1 that(2) .
  have 5: "is_zero t \<longrightarrow>
            js_div w t =
              (if is_zero w \<or> w = NaN then NaN else Infinity (negative w \<noteq> negative t))
          \<and> shown_overall (VectorAnalysis_statistics va) =
              (if is_zero w \<or> w = NaN then TextNaN
               else TextInfinity (negative w \<noteq> negative t))"
    using 1 2 by (auto simp: js_mul_100_special)
  have 6: "shown_overall (VectorAnalysis_statistics va) \<noteq> TextNaN"
    if "w = Num p \<or> w = NegZero" "t = Num q" "q \<noteq> 0" for p q
    using coverage_not_NaN [OF that(1,3)] unfolding 1 that(2) .
  show ?thesis using 1 3 4 5 6 by blast
qed

lemma coverage_29_of_200:
  "toFixed0 (js_mul (js_div (Num 29) (Num 200)) (Num 100)) = Digits False 14"
  by code_simp

lemma coverage_5_of_3:
  "toFixed0 (js_mul (js_div (Num 5) (Num 3)) (Num 100)) = Digits False 167"
  by code_simp

lemma coverage_negative_counts:
  "toFixed0 (js_mul (js_div (Num (- 1)) (Num (- 2))) (Num 100)) = Digits False 50"
  by code_simp

lemma coverage_negative_zero:
  "toFixed0 (js_mul (js_div NegZero (Num 5)) (Num 100)) = Digits False 0"
  by code_simp

text \<open>
  No total, \<open>3 / -0\<close>, and four totals other than zero: \<open>29 / 200\<close> is shown as 14 (the
  binary64 product is just below \<open>14.5\<close>), \<open>5 / 3\<close> as 167, \<open>-1 / -2\<close> as 50 and
  \<open>-0 / 5\<close> as 0.
\<close>

theorem overall_coverage_unguarded_witness:
  "shown_overall (VectorAnalysis_statistics (example_stats (Num 0) (Num 0))) = TextNaN
   \<and> shown_overall (VectorAnalysis_statistics (example_stats (Num 3) NegZero))
       = TextInfinity True
   \<and> shown_overall (VectorAnalysis_statistics (example_stats (Num 29) (Num 200)))
       = Digits False 14
   \<and> shown_overall (VectorAnalysis_statistics (example_stats (Num 5) (Num 3)))
       = Digits False 167
   \<and> shown_overall (VectorAnalysis_statistics (example_stats (Num (- 1)) (Num (- 2))))
       = Digits False 50
   \<and> shown_overall (VectorAnalysis_statistics (example_stats NegZero (Num 5)))
       = Digits False 0"
proof -
  have s: "well_matched_skills (coverage_statistics (example_stats w t)) = w"
    "total_skills_required (coverage_statistics (example_stats w t)) = t" for w t
    by (simp_all add: example_stats_def)
  have "shown_overall (VectorAnalysis_statistics (example_stats (Num 0) (Num 0))) = TextNaN"
    "shown_overall (VectorAnalysis_statistics (example_stats (Num 3) NegZero))
       = TextInfinity True"
    using overall_coverage_unguarded
        [of "example_stats (Num 0) (Num 0)", THEN conjunct2, THEN conjunct1]
      overall_coverage_unguarded
        [of "example_stats (Num 3) NegZero", THEN conjunct2, THEN conjunct1]
    unfolding s by simp_all
  moreover have
    "shown_overall (VectorAnalysis_statistics (example_stats (Num 29) (Num 200)))
       = Digits False 14"
    "shown_overall (VectorAnalysis_statistics (example_stats (Num 5) (Num 3)))
       = Digits False 167"
    "shown_overall (VectorAnalysis_statistics (example_stats (Num (- 1)) (Num (- 2))))
       = Digits False 50"
    "shown_overall (VectorAnalysis_statistics (example_stats NegZero (Num 5)))
       = Digits False 0"
    using overall_coverage_unguarded [of "example_stats (Num 29) (Num 200)", THEN conjunct1]
      overall_coverage_unguarded [of "example_stats (Num 5) (Num 3)", THEN conjunct1]
      overall_coverage_unguarded [of "example_stats (Num (- 1)) (Num (- 2))", THEN conjunct1]
      overall_coverage_unguarded [of "example_stats NegZero (Num 5)", THEN conjunct1]
    unfolding s
    by (simp_all only: coverage_29_of_200 coverage_5_of_3 coverage_negative_counts
        coverage_negative_zero)
  ultimately show ?thesis by (simp only: simp_thms)
qed

text \<open>
  A total other than zero does not by itself give a percentage: the quotient of
  \<open>2 ^ 1023\<close> by \<open>1 / 2\<close> overflows, and the figure shown is "Infinity" again.
\<close>

lemma fl_overflow: "fl s (2 ^ 1024) = Infinity s"
proof -
  define a :: rat where "a = 2 powi 1024"
  have a0: "0 < a" by (simp add: a_def)
  have "2 powi ilog2 a \<le> a" using a0 by (rule ilog2_lower)
  then have L: "ilog2 a \<le> 1024"
    unfolding a_def using power_int_le_imp_le_exp [of "2::rat" "ilog2 (2 powi 1024)" 1024]
    by simp
  define e where "e = max (ilog2 a - 52) (- 1074)"
  define k where "k = nat (1024 - e)"
  have e: "e \<le> 1024" using L by (simp add: e_def)
  have "a / 2 powi e = 2 powi (1024 - e)"
    unfolding a_def by (rule power_int_diff [symmetric]) simp
  also have "\<dots> = 2 ^ k" using e by (simp add: k_def power_int_def)
  also have "\<dots> = of_int (2 ^ k)" by simp
  finally have q: "a / 2 powi e = of_int (2 ^ k)" .
  have "round_ties_even (a / 2 powi e) = 2 ^ k"
    unfolding q by (rule round_ties_even_of_int)
  then have "of_int (round_ties_even (a / 2 powi e)) * 2 powi e = a / 2 powi e * 2 powi e"
    using q by simp
  also have "\<dots> = a" by simp
  finally have r: "of_int (round_ties_even (a / 2 powi e)) * 2 powi e = a" .
  have "fl s a = Infinity s"
    using a0 by (simp add: fl_def Let_def e_def [symmetric] r) (simp add: a_def)
  then show ?thesis by (simp add: a_def)
qed

lemma overall_coverage_overflow:
  "shown_overall (VectorAnalysis_statistics (example_stats (Num (2 ^ 1023)) (Num (1 / 2))))
     = TextInfinity False"
proof -
  have "(2::rat) ^ 1023 / (1 / 2) = 2 ^ 1024" by simp
  then have "js_div (Num (2 ^ 1023)) (Num (1 / 2)) = Infinity False"
    using fl_overflow [of False] by (simp add: js_div_def)
  then show ?thesis
    by (simp add: example_stats_def VectorAnalysis_statistics_def js_mul_100_special)
qed

subsection \<open>The job description form\<close>

text \<open>
  Claim C2. When the trimmed text is empty, \<open>handleUpload\<close> sets the error flash message
  "the job description cannot be empty" (\<open>msg_empty_description\<close>) and returns: the state is
  otherwise unchanged and no request is issued. The submit button is disabled in such a
  state, so pressing it does nothing.
\<close>

theorem empty_description_blocked:
  assumes "trim (text_value s) = []"
  shows "handleUpload resumeId s =
           s\<lparr>flash := Some \<lparr>flash_type = flash_error, flash_message = msg_empty_description\<rparr>\<rparr>
       \<and> in_flight (handleUpload resumeId s) = in_flight s
       \<and> isNextDisabled s
       \<and> step resumeId s Submit = s"
  using assms by (simp add: handleUpload_def isNextDisabled_def)

theorem empty_description_blocked_witness:
  "trim (text_value (example_form [0x20, 0x0A, 0x3000])) = []
   \<and> flash (handleUpload (Some (ascii ''cv1'')) (example_form [0x20, 0x0A, 0x3000])) =
       Some \<lparr>flash_type = flash_error, flash_message = msg_empty_description\<rparr>
   \<and> in_flight (handleUpload (Some (ascii ''cv1'')) (example_form [0x20, 0x0A, 0x3000])) = []
   \<and> isNextDisabled (example_form [0x20, 0x0A, 0x3000])"
proof -
  have t: "trim (text_value (example_form [0x20, 0x0A, 0x3000])) = []"
    by (simp add: example_form_def trim_def isWhiteSpace_def)
  from empty_description_blocked [OF t, of "Some (ascii ''cv1'')"] t
  show ?thesis by (simp add: example_form_def initial_state_def)
qed

lemma run_snoc: "run resumeId cell (es @ [e]) = step resumeId (run resumeId cell es) e"
  by (simp add: run_def)

lemma example_submitted:
  "run (Some (ascii ''cv1'')) None [Change (ascii '' a ''), Submit] =
     (initial_state None)
       \<lparr>text_value := ascii '' a '', submissionStatus := submitting,
         in_flight := [uploadJobDescriptions [ascii ''a''] (ascii ''cv1'')]\<rparr>"
  by (simp add: run_def initial_state_def handleChange_def isNextDisabled_def handleUpload_def
      trim_def isWhiteSpace_def ascii_def)

lemma example_improving:
  "run (Some (ascii ''cv1'')) None
     [Change (ascii '' a ''), Submit, UploadSettled 0 (Inr (ascii ''j1'')), ClickImprove] =
     (initial_state None)
       \<lparr>text_value := ascii '' a '', submissionStatus := success,
         jobId := Some (ascii ''j1''),
         flash := Some \<lparr>flash_type = flash_success, flash_message = msg_submitted\<rparr>,
         improvementStatus := improving,
         in_flight := [improveResume (Some (ascii ''cv1'')) (ascii ''j1'')]\<rparr>"
  by (simp add: run_def initial_state_def handleChange_def isNextDisabled_def handleUpload_def
      trim_def isWhiteSpace_def ascii_def handleUpload_settled_def remove_nth_def
      improve_button_def handleImprove_def)

text \<open>
  Claim C5. When the request of a job-description submission, or of an improvement, is
  answered by an error, the handler catches it: the flash message becomes an error message
  with the text of the error, the submission status (the improvement status) becomes
  \<open>error\<close>, the answered request leaves the requests in flight and no request is issued
  (nothing is retried); nothing else changes.
\<close>

theorem api_failure_becomes_flash:
  "(i < length (in_flight s) \<and> in_flight s ! i = uploadJobDescriptions ds rid \<longrightarrow>
      step resumeId s (UploadSettled i (Inl err)) =
        s\<lparr>in_flight := remove_nth i (in_flight s), submissionStatus := error,
          flash := Some \<lparr>flash_type = flash_error, flash_message = message err\<rparr>\<rparr>)
   \<and> (i < length (in_flight s) \<and> in_flight s ! i = improveResume r j \<longrightarrow>
      step resumeId s (ImproveSettled i (Inl err)) =
        s\<lparr>in_flight := remove_nth i (in_flight s), improvementStatus := improve_error,
          flash := Some \<lparr>flash_type = flash_error, flash_message = message err\<rparr>\<rparr>)"
  by (simp add: handleUpload_settled_def handleImprove_settled_def)

theorem api_failure_becomes_flash_witness:
  "step (Some (ascii ''cv1''))
     (run (Some (ascii ''cv1'')) None [Change (ascii '' a ''), Submit])
     (UploadSettled 0 (Inl (Error (ascii ''Failed to fetch'')))) =
     (initial_state None)
       \<lparr>text_value := ascii '' a '', in_flight := [], submissionStatus := error,
         flash := Some \<lparr>flash_type = flash_error,
                         flash_message = ascii ''Failed to fetch''\<rparr>\<rparr>
   \<and> step (Some (ascii ''cv1''))
     (run (Some (ascii ''cv1'')) None
        [Change (ascii '' a ''), Submit, UploadSettled 0 (Inr (ascii ''j1'')), ClickImprove])
     (ImproveSettled 0 (Inl (Error (ascii ''Failed to fetch'')))) =
     (initial_state None)
       \<lparr>text_value := ascii '' a '', submissionStatus := success,
         jobId := Some (ascii ''j1''), in_flight := [],
         improvementStatus := improve_error,
         flash := Some \<lparr>flash_type = flash_error,
                         flash_message = ascii ''Failed to fetch''\<rparr>\<rparr>"
  using api_failure_becomes_flash
    [of 0 "run (Some (ascii ''cv1'')) None [Change (ascii '' a ''), Submit]"
      "[ascii ''a'']" "ascii ''cv1''" "Some (ascii ''cv1'')"
      "Error (ascii ''Failed to fetch'')"]
    api_failure_becomes_flash
    [of 0 "run (Some (ascii ''cv1'')) None
        [Change (ascii '' a ''), Submit, UploadSettled 0 (Inr (ascii ''j1'')), ClickImprove]"
      _ _ "Some (ascii ''cv1'')" "Error (ascii ''Failed to fetch'')"
      "Some (ascii ''cv1'')" "ascii ''j1''"]
  by (simp add: example_submitted example_improving initial_state_def remove_nth_def)

text \<open>
  Claim C6, as stated: no two requests overlap in any reachable state. After a successful
  submission the improve button starts an improvement, and the submit button, which the
  improvement does not disable, starts a second submission while the improvement is awaiting
  its answer: two requests are in flight.
\<close>

theorem overlapping_requests_counterexample:
  "in_flight (run (Some (ascii ''cv1'')) None
     [Change (ascii '' a ''), Submit, UploadSettled 0 (Inr (ascii ''j1'')), ClickImprove,
      Submit]) =
     [improveResume (Some (ascii ''cv1'')) (ascii ''j1''),
      uploadJobDescriptions [ascii ''a''] (ascii ''cv1'')]"
  by (simp add: run_def initial_state_def handleChange_def isNextDisabled_def handleUpload_def
      trim_def isWhiteSpace_def ascii_def handleUpload_settled_def remove_nth_def
      improve_button_def handleImprove_def)

lemma filter_remove_nth_other:
  assumes "i < length xs" and "\<not> P (xs ! i)"
  shows "filter P (remove_nth i xs) = filter P xs"
proof -
  have "filter P xs = filter P (take i xs @ xs ! i # drop (Suc i) xs)"
    using assms(1) by (simp add: id_take_nth_drop [symmetric])
  then show ?thesis using assms(2) by (simp add: remove_nth_def)
qed

lemma filter_remove_nth_same:
  assumes "i < length xs" and "P (xs ! i)" and "length (filter P xs) \<le> 1"
  shows "filter P (remove_nth i xs) = []"
proof -
  have "filter P xs = filter P (take i xs @ xs ! i # drop (Suc i) xs)"
    using assms(1) by (simp add: id_take_nth_drop [symmetric])
  then have "filter P xs = filter P (take i xs) @ xs ! i # filter P (drop (Suc i) xs)"
    using assms(2) by simp
  then have "length (filter P (take i xs)) + length (filter P (drop (Suc i) xs)) = 0"
    using assms(3) by simp
  then show ?thesis by (simp add: remove_nth_def)
qed

lemma one_improve_step:
  assumes "one_improve s"
  shows "one_improve (step resumeId s e)"
proof (cases e)
  case (Change v)
  then show ?thesis using assms
    by (simp add: one_improve_def improves_in_flight_def handleChange_def)
next
  case Submit
  then show ?thesis using assms
    by (auto simp: one_improve_def improves_in_flight_def handleUpload_def Let_def
        split: option.splits)
next
  case ClickImprove
  then show ?thesis using assms
    by (auto simp: one_improve_def improves_in_flight_def handleImprove_def improve_button_def
        split: option.splits if_splits)
next
  case (UploadSettled i r)
  then show ?thesis using assms
    by (auto simp: one_improve_def improves_in_flight_def handleUpload_settled_def
        filter_remove_nth_other split: sum.splits)
next
  case (ImproveSettled i r)
  then show ?thesis using assms
    by (auto simp: one_improve_def improves_in_flight_def handleImprove_settled_def
        filter_remove_nth_same split: sum.splits)
qed

lemma one_improve_run: "one_improve (run resumeId cell es)"
proof (induction es rule: rev_induct)
  case Nil
  then show ?case
    by (simp add: run_def one_improve_def improves_in_flight_def initial_state_def)
next
  case (snoc e es)
  then show ?case by (simp add: run_snoc one_improve_step)
qed

text \<open>
  Claim C6, amended. In every reachable state of the form: while \<open>submissionStatus\<close> is
  \<open>submitting\<close> the submit button is disabled and pressing it starts nothing; while
  \<open>improvementStatus\<close> is \<open>improving\<close> the improve button is disabled (or not rendered)
  and pressing it starts nothing; and at most one improvement request is in flight, during
  which \<open>improvementStatus\<close> is \<open>improving\<close>, so that two improvement requests never
  overlap. (A submission may overlap an improvement.)
\<close>

theorem buttons_gate_requests:
  fixes resumeId cell es
  defines "s \<equiv> run resumeId cell es"
  shows "(submissionStatus s = submitting \<longrightarrow>
            isNextDisabled s \<and> step resumeId s Submit = s)
       \<and> (improvementStatus s = improving \<longrightarrow>
            improve_button s \<noteq> Some False \<and> step resumeId s ClickImprove = s)
       \<and> length (filter is_improve (in_flight s)) \<le> 1
       \<and> (filter is_improve (in_flight s) \<noteq> [] \<longrightarrow>
            improvementStatus s = improving \<and> step resumeId s ClickImprove = s)"
  using one_improve_run [of resumeId cell es]
  by (auto simp: s_def one_improve_def improves_in_flight_def isNextDisabled_def
      improve_button_def)

theorem buttons_gate_requests_witness:
  "isNextDisabled (run (Some (ascii ''cv1'')) None [Change (ascii '' a ''), Submit])
   \<and> step (Some (ascii ''cv1''))
       (run (Some (ascii ''cv1'')) None [Change (ascii '' a ''), Submit]) Submit
      = run (Some (ascii ''cv1'')) None [Change (ascii '' a ''), Submit]
   \<and> step (Some (ascii ''cv1''))
       (run (Some (ascii ''cv1'')) None
         [Change (ascii '' a ''), Submit, UploadSettled 0 (Inr (ascii ''j1'')), ClickImprove])
       ClickImprove
      = run (Some (ascii ''cv1'')) None
         [Change (ascii '' a ''), Submit, UploadSettled 0 (Inr (ascii ''j1'')), ClickImprove]"
  using buttons_gate_requests
      [of "Some (ascii ''cv1'')" None "[Change (ascii '' a ''), Submit]"]
    buttons_gate_requests
      [of "Some (ascii ''cv1'')" None
        "[Change (ascii '' a ''), Submit, UploadSettled 0 (Inr (ascii ''j1'')), ClickImprove]"]
  by (simp add: example_submitted example_improving initial_state_def)

text \<open>
  The gate on submissions hangs on the status, which every edit resets to \<open>idle\<close>: after
  an edit during a submission the submit button is enabled again, and a second submission
  starts while the first one awaits its answer.
\<close>

lemma edit_during_submission:
  "in_flight (run (Some (ascii ''cv1'')) None
     [Change (ascii '' a ''), Submit, Change (ascii '' b ''), Submit]) =
     [uploadJobDescriptions [ascii ''a''] (ascii ''cv1''),
      uploadJobDescriptions [ascii ''b''] (ascii ''cv1'')]"
  by (simp add: run_def initial_state_def handleChange_def isNextDisabled_def handleUpload_def
      trim_def isWhiteSpace_def ascii_def)

subsection \<open>The resume upload control\<close>

text \<open>
  Claim C3, as stated: every response with no \<open>resume_id\<close> that is a string gets the
  error feedback. The body \<open>null\<close> has no such field, and for it the read of
  \<open>data.resume_id\<close> throws a \<open>TypeError\<close> before any feedback is set.
\<close>

theorem upload_null_body_counterexample:
  "data_resume_id (Some JNull) = Inl (TypeError_reading_resume_id ''null'')
   \<and> onUploadSuccess example_file (Some JNull) =
       ([], Some (TypeError_reading_resume_id ''null''))"
  by (simp add: onUploadSuccess_def)

text \<open>
  Claim C3, amended. When the response of a successful upload is a value other than
  \<open>null\<close> and \<open>undefined\<close> (an object, an array, a string, a number, a boolean) and has
  no \<open>resume_id\<close> that is a string, \<open>onUploadSuccess\<close> sets the error feedback
  "uploaded, but no resume identifier was received" (\<open>msg_missing_resume_id\<close>) and
  returns, doing nothing else. When the response is \<open>null\<close> or \<open>undefined\<close>, the
  callback throws a \<open>TypeError\<close> and sets no feedback. In every case the address is
  assigned only when \<open>resume_id\<close> is a string.
\<close>

theorem upload_without_resume_id:
  "(response \<noteq> None \<and> response \<noteq> Some JNull
      \<and> (\<forall>rid. data_resume_id response \<noteq> Inr (Some (JString rid))) \<longrightarrow>
      onUploadSuccess uploadedFile response =
        ([setUploadFeedback
            (Some \<lparr>feedback_type = feedback_error,
                   feedback_message = msg_missing_resume_id\<rparr>)], None))
   \<and> onUploadSuccess uploadedFile (Some JNull) =
       ([], Some (TypeError_reading_resume_id ''null''))
   \<and> onUploadSuccess uploadedFile None =
       ([], Some (TypeError_reading_resume_id ''undefined''))
   \<and> (set_location_href url \<in> set (fst (onUploadSuccess uploadedFile response)) \<longrightarrow>
        (\<exists>rid. data_resume_id response = Inr (Some (JString rid))))"
proof -
  have 1: "onUploadSuccess uploadedFile response =
        ([setUploadFeedback
            (Some \<lparr>feedback_type = feedback_error,
                   feedback_message = msg_missing_resume_id\<rparr>)], None)"
    if "response \<noteq> None" "response \<noteq> Some JNull"
      "\<forall>rid. data_resume_id response \<noteq> Inr (Some (JString rid))"
  proof -
    from that(1,2) obtain v where v: "data_resume_id response = Inr v"
      by (cases response rule: data_resume_id.cases) simp_all
    then show ?thesis using that(3)
      by (auto simp: onUploadSuccess_def split: option.splits json.splits)
  qed
  have 2: "\<exists>rid. data_resume_id response = Inr (Some (JString rid))"
    if "set_location_href url \<in> set (fst (onUploadSuccess uploadedFile response))"
    using that
    by (auto simp: onUploadSuccess_def Let_def
        split: option.splits json.splits sum.splits if_splits)
  show ?thesis using 1 2 by (simp add: onUploadSuccess_def)
qed

text \<open>
  An object without the field, an object whose \<open>resume_id\<close> is a number, an array and a
  string as the body: each gets the error feedback.
\<close>

theorem upload_without_resume_id_witness:
  "onUploadSuccess example_file (example_response None) =
     ([setUploadFeedback
         (Some \<lparr>feedback_type = feedback_error,
                feedback_message = msg_missing_resume_id\<rparr>)], None)
   \<and> onUploadSuccess example_file (example_response (Some (JNumber (Num 7)))) =
     ([setUploadFeedback
         (Some \<lparr>feedback_type = feedback_error,
                feedback_message = msg_missing_resume_id\<rparr>)], None)
   \<and> onUploadSuccess example_file (Some (JArray [JString (ascii ''cv1'')])) =
     ([setUploadFeedback
         (Some \<lparr>feedback_type = feedback_error,
                feedback_message = msg_missing_resume_id\<rparr>)], None)
   \<and> onUploadSuccess example_file (Some (JString (ascii ''cv1''))) =
     ([setUploadFeedback
         (Some \<lparr>feedback_type = feedback_error,
                feedback_message = msg_missing_resume_id\<rparr>)], None)"
  using upload_without_resume_id [of "example_response None" example_file]
    upload_without_resume_id [of "example_response (Some (JNumber (Num 7)))" example_file]
    upload_without_resume_id [of "Some (JArray [JString (ascii ''cv1'')])" example_file]
    upload_without_resume_id [of "Some (JString (ascii ''cv1''))" example_file]
  by (simp add: example_response_def)

lemma uriUnescaped_not_surrogate:
  "uriUnescaped c \<Longrightarrow> \<not> isLeadingSurrogate c \<and> \<not> isTrailingSurrogate c"
  by (auto simp: uriUnescaped_def isLeadingSurrogate_def isTrailingSurrogate_def
      word_le_nat_alt)

lemma surrogates_disjoint: "isLeadingSurrogate c \<Longrightarrow> \<not> isTrailingSurrogate c"
  by (auto simp: isLeadingSurrogate_def isTrailingSurrogate_def word_le_nat_alt)

lemma encodeURIComponent_well_formed:
  "(\<exists>enc. encodeURIComponent s = Inr enc) \<longleftrightarrow> well_formed s"
proof (induction s rule: encodeURIComponent.induct)
  case 1
  then show ?case by simp
next
  case (2 c cs)
  show ?case
  proof (cases "uriUnescaped c")
    case True
    then show ?thesis using 2(1) uriUnescaped_not_surrogate [OF True]
      by (auto split: sum.splits)
  next
    case False
    show ?thesis
    proof (cases "isTrailingSurrogate c")
      case True
      then show ?thesis using False surrogates_disjoint [of c] by auto
    next
      case nt: False
      show ?thesis
      proof (cases "isLeadingSurrogate c")
        case True
        then show ?thesis using False nt 2(2)
          by (auto split: list.splits sum.splits)
      next
        case nl: False
        then show ?thesis using False nt 2(3) by (auto split: sum.splits)
      qed
    qed
  qed
qed

subsection \<open>The search parameter read back from the address\<close>

lemma decode1:
  assumes "cp < 0x80"
  shows "utf8_decode_from None (utf8_octets cp @ bs) = cp # utf8_decode_from None bs"
  using assms by (simp add: utf8_octets_def utf8_first_def)

lemma cont_last:
  "lo \<le> b \<Longrightarrow> b \<le> hi \<Longrightarrow>
   utf8_decode_from (Some (c, 1, lo, hi)) (b # bs) =
     (c * 0x40 + b mod 0x40) # utf8_decode_from None bs"
  by simp

lemma cont_more:
  "n \<noteq> 1 \<Longrightarrow> lo \<le> b \<Longrightarrow> b \<le> hi \<Longrightarrow>
   utf8_decode_from (Some (c, n, lo, hi)) (b # bs) =
     utf8_decode_from (Some (c * 0x40 + b mod 0x40, n - 1, 0x80, 0xBF)) bs"
  by simp

lemma first_pending:
  "utf8_first b = Pending c n lo hi \<Longrightarrow>
   utf8_decode_from None (b # bs) = utf8_decode_from (Some (c, n, lo, hi)) bs"
  by simp

lemma mod_shift: "b < m \<Longrightarrow> (k * m + b) mod m = (b::nat)"
  by simp

lemma decode2:
  assumes "0x80 \<le> cp" "cp < 0x800"
  shows "utf8_decode_from None (utf8_octets cp @ bs) = cp # utf8_decode_from None bs"
proof -
  define a where "a = cp div 0x40"
  define b where "b = cp mod 0x40"
  have cp: "a * 0x40 + b = cp" by (simp add: a_def b_def)
  have a: "2 \<le> a" "a < 0x20" using assms unfolding a_def by linarith+
  have b: "b < 0x40" by (simp add: b_def)
  have "(0xC0 + a) mod 0x20 = a" using mod_shift [of a "0x20" 6] a by simp
  then have f: "utf8_first (0xC0 + a) = Pending a 1 0x80 0xBF"
    using a by (simp add: utf8_first_def)
  have m: "(0x80 + b) mod 0x40 = b" using mod_shift [of b "0x40" 2] b by simp
  show ?thesis
    using assms a b
    by (simp add: utf8_octets_def a_def[symmetric] b_def[symmetric] f m cp)
qed

lemma decode3:
  assumes "0x800 \<le> cp" "cp < 0x10000" "\<not> (0xD800 \<le> cp \<and> cp \<le> 0xDFFF)"
  shows "utf8_decode_from None (utf8_octets cp @ bs) = cp # utf8_decode_from None bs"
proof -
  define q where "q = cp div 0x40"
  define a where "a = cp div 0x1000"
  define b where "b = cp div 0x40 mod 0x40"
  define c where "c = cp mod 0x40"
  have aq: "a = q div 0x40" unfolding a_def q_def by (simp add: div_mult2_eq [symmetric])
  have ab: "a * 0x40 + b = q" unfolding aq b_def q_def by simp
  then have cp: "(a * 0x40 + b) * 0x40 + c = cp" by (simp add: q_def c_def)
  have q: "0x20 \<le> q" "q < 0x400" "\<not> (0x360 \<le> q \<and> q \<le> 0x37F)"
    using assms unfolding q_def by linarith+
  have a: "a < 0x10" using q unfolding aq by linarith
  have b: "b < 0x40" by (simp add: b_def)
  have c: "c < 0x40" by (simp add: c_def)
  have lo: "0x20 \<le> b" if "a = 0" using q ab that by linarith
  have hi: "b < 0x20" if "a = 0xD" using q ab b that by linarith
  have "(0xE0 + a) mod 0x10 = a" using mod_shift [of a "0x10" 14] a by simp
  then have f: "utf8_first (0xE0 + a) =
      Pending a 2 (if a = 0 then 0xA0 else 0x80) (if a = 0xD then 0x9F else 0xBF)"
    using a by (simp add: utf8_first_def)
  have m: "(0x80 + b) mod 0x40 = b" "(0x80 + c) mod 0x40 = c"
    using mod_shift [of b "0x40" 2] mod_shift [of c "0x40" 2] b c by simp_all
  have oct: "utf8_octets cp = [0xE0 + a, 0x80 + b, 0x80 + c]"
    using assms by (simp add: utf8_octets_def a_def b_def c_def)
  have r2: "(if a = 0 then 0xA0 else 0x80) \<le> 0x80 + b"
    "0x80 + b \<le> (if a = 0xD then 0x9F else 0xBF)"
    using lo hi b by auto
  have "utf8_decode_from None (utf8_octets cp @ bs) =
      utf8_decode_from (Some (a, 2, if a = 0 then 0xA0 else 0x80, if a = 0xD then 0x9F else 0xBF))
        ((0x80 + b) # (0x80 + c) # bs)"
    unfolding oct using first_pending [OF f] by simp
  also have "\<dots> = utf8_decode_from (Some (a * 0x40 + b, 1, 0x80, 0xBF)) ((0x80 + c) # bs)"
    using cont_more [OF _ r2, of 2 a "(0x80 + c) # bs"] by (simp add: m)
  also have "\<dots> = ((a * 0x40 + b) * 0x40 + c) # utf8_decode_from None bs"
    using cont_last [of "0x80" "0x80 + c" "0xBF" "a * 0x40 + b" bs] c by (simp add: m)
  finally show ?thesis by (simp only: cp)
qed

lemma decode4:
  assumes "0x10000 \<le> cp" "cp < 0x110000"
  shows "utf8_decode_from None (utf8_octets cp @ bs) = cp # utf8_decode_from None bs"
proof -
  define q where "q = cp div 0x40"
  define r where "r = cp div 0x1000"
  define a where "a = cp div 0x40000"
  define b where "b = cp div 0x1000 mod 0x40"
  define c where "c = cp div 0x40 mod 0x40"
  define d where "d = cp mod 0x40"
  have rq: "r = q div 0x40" unfolding r_def q_def by (simp add: div_mult2_eq [symmetric])
  have ar: "a = r div 0x40" unfolding a_def r_def by (simp add: div_mult2_eq [symmetric])
  have 1: "a * 0x40 + b = r" unfolding ar b_def r_def by simp
  have 2: "r * 0x40 + c = q" unfolding rq c_def q_def by simp
  have cp: "((a * 0x40 + b) * 0x40 + c) * 0x40 + d = cp" by (simp add: 1 2) (simp add: q_def d_def)
  have r: "0x10 \<le> r" "r < 0x110" using assms unfolding r_def by linarith+
  have a: "a < 5" using r unfolding ar by linarith
  have b: "b < 0x40" by (simp add: b_def)
  have c: "c < 0x40" by (simp add: c_def)
  have d: "d < 0x40" by (simp add: d_def)
  have lo: "0x10 \<le> b" if "a = 0" using r 1 that by linarith
  have hi: "b < 0x10" if "a = 4" using r 1 b that by linarith
  have "(0xF0 + a) mod 0x08 = a" using mod_shift [of a "0x08" 30] a by simp
  then have f: "utf8_first (0xF0 + a) =
      Pending a 3 (if a = 0 then 0x90 else 0x80) (if a = 4 then 0x8F else 0xBF)"
    using a by (simp add: utf8_first_def)
  have m: "(0x80 + b) mod 0x40 = b" "(0x80 + c) mod 0x40 = c" "(0x80 + d) mod 0x40 = d"
    using mod_shift [of b "0x40" 2] mod_shift [of c "0x40" 2] mod_shift [of d "0x40" 2] b c d
    by simp_all
  have oct: "utf8_octets cp = [0xF0 + a, 0x80 + b, 0x80 + c, 0x80 + d]"
    using assms by (simp add: utf8_octets_def a_def b_def c_def d_def)
  have r2: "(if a = 0 then 0x90 else 0x80) \<le> 0x80 + b"
    "0x80 + b \<le> (if a = 4 then 0x8F else 0xBF)"
    using lo hi b by auto
  have "utf8_decode_from None (utf8_octets cp @ bs) =
      utf8_decode_from (Some (a, 3, if a = 0 then 0x90 else 0x80, if a = 4 then 0x8F else 0xBF))
        ((0x80 + b) # (0x80 + c) # (0x80 + d) # bs)"
    unfolding oct using first_pending [OF f] by simp
  also have "\<dots> = utf8_decode_from (Some (a * 0x40 + b, 2, 0x80, 0xBF))
      ((0x80 + c) # (0x80 + d) # bs)"
    using cont_more [OF _ r2, of 3 a "(0x80 + c) # (0x80 + d) # bs"] by (simp add: m)
  also have "\<dots> = utf8_decode_from (Some ((a * 0x40 + b) * 0x40 + c, 1, 0x80, 0xBF))
      ((0x80 + d) # bs)"
    using cont_more [of 2 "0x80" "0x80 + c" "0xBF" "a * 0x40 + b" "(0x80 + d) # bs"] c
    by (simp add: m)
  also have "\<dots> = (((a * 0x40 + b) * 0x40 + c) * 0x40 + d) # utf8_decode_from None bs"
    using cont_last [of "0x80" "0x80 + d" "0xBF" "(a * 0x40 + b) * 0x40 + c" bs] d
    by (simp add: m)
  finally show ?thesis by (simp only: cp)
qed

lemma utf8_decode_octets:
  assumes "scalar cp"
  shows "utf8_decode_from None (utf8_octets cp @ bs) = cp # utf8_decode_from None bs"
proof -
  consider "cp < 0x80" | "0x80 \<le> cp" "cp < 0x800" | "0x800 \<le> cp" "cp < 0x10000"
    | "0x10000 \<le> cp" by linarith
  then show ?thesis
    using assms by cases (simp_all add: decode1 decode2 decode3 decode4 scalar_def)
qed

lemma unat_code_unit: "unat (c :: 16 word) < 0x10000"
proof -
  have "unat c < 2 ^ LENGTH(16)" by (rule unsigned_less)
  then show ?thesis by simp
qed

lemma pair_code_point:
  assumes "isLeadingSurrogate c" "isTrailingSurrogate d"
  shows "0x10000 \<le> UTF16SurrogatePairToCodePoint c d"
    and "UTF16SurrogatePairToCodePoint c d < 0x110000"
    and "utf16 (UTF16SurrogatePairToCodePoint c d) = [c, d]"
proof -
  define h where "h = unat c - 0xD800"
  define l where "l = unat d - 0xDC00"
  have c: "0xD800 \<le> unat c" "unat c \<le> 0xDBFF"
    using assms(1) by (simp_all add: isLeadingSurrogate_def word_le_nat_alt)
  have d: "0xDC00 \<le> unat d" "unat d \<le> 0xDFFF"
    using assms(2) by (simp_all add: isTrailingSurrogate_def word_le_nat_alt)
  have h: "h < 0x400" "0xD800 + h = unat c" using c by (simp_all add: h_def)
  have l: "l < 0x400" "0xDC00 + l = unat d" using d by (simp_all add: l_def)
  have cp: "UTF16SurrogatePairToCodePoint c d = h * 0x400 + l + 0x10000"
    by (simp add: UTF16SurrogatePairToCodePoint_def h_def l_def)
  show "0x10000 \<le> UTF16SurrogatePairToCodePoint c d" by (simp add: cp)
  show "UTF16SurrogatePairToCodePoint c d < 0x110000" using h(1) l(1) by (simp add: cp)
  have "(h * 0x400 + l) div 0x400 = h" "(h * 0x400 + l) mod 0x400 = l"
    using l(1) by simp_all
  then show "utf16 (UTF16SurrogatePairToCodePoint c d) = [c, d]"
    using h(2) l(2) by (simp add: utf16_def cp)
qed

lemma utf16_unit:
  "utf16 (unat (c :: 16 word)) = [c]"
  using unat_code_unit [of c] by (simp add: utf16_def)

lemma well_formed_cases:
  assumes "well_formed (c # cs)"
  obtains (pair) d ds where "isLeadingSurrogate c" "cs = d # ds" "isTrailingSurrogate d"
      "well_formed ds"
    | (unit) "\<not> isLeadingSurrogate c" "\<not> isTrailingSurrogate c" "well_formed cs"
proof (cases "isLeadingSurrogate c")
  case True
  then show ?thesis using assms pair by (cases cs) simp_all
next
  case False
  then show ?thesis using assms unit by simp
qed

lemma utf16_code_points:
  "well_formed s \<Longrightarrow> concat (map utf16 (usv_code_points s)) = s"
proof (induction s rule: length_induct)
  case (1 s)
  show ?case
  proof (cases s)
    case Nil
    then show ?thesis by simp
  next
    case (Cons c cs)
    from "1.prems" [unfolded Cons] show ?thesis
    proof (cases rule: well_formed_cases)
      case (pair d ds)
      have "concat (map utf16 (usv_code_points ds)) = ds"
        using "1.IH" pair(2,4) Cons by simp
      then show ?thesis using pair Cons by (simp add: pair_code_point(3))
    next
      case unit
      have "concat (map utf16 (usv_code_points cs)) = cs"
        using "1.IH" unit(3) Cons by simp
      then show ?thesis using unit Cons by (simp add: utf16_unit)
    qed
  qed
qed

lemma scalar_unit:
  assumes "\<not> isLeadingSurrogate c" "\<not> isTrailingSurrogate c"
  shows "scalar (unat c)"
proof -
  have "unat c < 0xD800 \<or> 0xDFFF < unat c"
    using assms by (simp add: isLeadingSurrogate_def isTrailingSurrogate_def word_le_nat_alt)
      linarith
  then show ?thesis using unat_code_unit [of c] by (auto simp: scalar_def)
qed

lemma scalar_pair:
  assumes "isLeadingSurrogate c" "isTrailingSurrogate d"
  shows "scalar (UTF16SurrogatePairToCodePoint c d)"
  using pair_code_point(1,2) [OF assms] by (simp add: scalar_def)

lemma scalar_code_points:
  "well_formed s \<Longrightarrow> list_all scalar (usv_code_points s)"
proof (induction s rule: length_induct)
  case (1 s)
  show ?case
  proof (cases s)
    case Nil
    then show ?thesis by simp
  next
    case (Cons c cs)
    from "1.prems" [unfolded Cons] show ?thesis
    proof (cases rule: well_formed_cases)
      case (pair d ds)
      have "list_all scalar (usv_code_points ds)"
        using "1.IH" pair(2,4) Cons by simp
      then show ?thesis using pair Cons by (simp add: scalar_pair)
    next
      case unit
      have "list_all scalar (usv_code_points cs)"
        using "1.IH" unit(3) Cons by simp
      then show ?thesis using unit Cons by (simp add: scalar_unit)
    qed
  qed
qed

lemma enc_cp_unit:
  "enc_cp (unat c) =
     (if uriUnescaped c then [c] else concat (map percent_escape (utf8_octets (unat c))))"
  using unat_code_unit [of c] by (simp add: enc_cp_def)

lemma enc_cp_pair:
  assumes "isLeadingSurrogate c" "isTrailingSurrogate d"
  shows "enc_cp (UTF16SurrogatePairToCodePoint c d) =
      concat (map percent_escape (utf8_octets (UTF16SurrogatePairToCodePoint c d)))"
  using pair_code_point(1) [OF assms] by (simp add: enc_cp_def)

lemma encodeURIComponent_code_points:
  "well_formed s \<Longrightarrow> encodeURIComponent s = Inr (concat (map enc_cp (usv_code_points s)))"
proof (induction s rule: length_induct)
  case (1 s)
  show ?case
  proof (cases s)
    case Nil
    then show ?thesis by simp
  next
    case (Cons c cs)
    from "1.prems" [unfolded Cons] show ?thesis
    proof (cases rule: well_formed_cases)
      case (pair d ds)
      have "encodeURIComponent ds = Inr (concat (map enc_cp (usv_code_points ds)))"
        using "1.IH" pair(2,4) Cons by simp
      moreover have "\<not> uriUnescaped c" "\<not> isTrailingSurrogate c"
        using pair(1) uriUnescaped_not_surrogate [of c] surrogates_disjoint [of c] by auto
      ultimately show ?thesis using pair Cons by (simp add: enc_cp_pair)
    next
      case unit
      have "encodeURIComponent cs = Inr (concat (map enc_cp (usv_code_points cs)))"
        using "1.IH" unit(3) Cons by simp
      then show ?thesis using unit Cons by (simp add: enc_cp_unit)
    qed
  qed
qed

lemma plain_range:
  assumes "plain c"
  shows "0x20 < unat c" "unat c \<le> 0x7E"
    "unat c \<notin> {0x22, 0x23, 0x26, 0x2B, 0x2F, 0x3C, 0x3D, 0x3E, 0x3F}"
  using assms
  by (auto simp: plain_def uriUnescaped_def word_le_nat_alt)

lemma plain_not_surrogate:
  "plain c \<Longrightarrow> \<not> isLeadingSurrogate c \<and> \<not> isTrailingSurrogate c"
  using plain_range(2) [of c]
  by (auto simp: isLeadingSurrogate_def isTrailingSurrogate_def word_le_nat_alt)

lemma unat_hex_digit:
  assumes "n < 16"
  shows "unat (hex_digit n) = (if n < 10 then 0x30 + n else 0x37 + n)"
proof (cases "n < 10")
  case True
  have "hex_digit n = of_nat (0x30 + n)" using True by (simp add: hex_digit_def)
  then have "unat (hex_digit n) = (0x30 + n) mod 2 ^ LENGTH(16)" by (simp only: unat_of_nat)
  then show ?thesis using True by simp
next
  case False
  have "hex_digit n = of_nat (0x41 + (n - 10))" using False by (simp add: hex_digit_def)
  then have "unat (hex_digit n) = (0x41 + (n - 10)) mod 2 ^ LENGTH(16)"
    by (simp only: unat_of_nat)
  then show ?thesis using False assms by simp
qed

lemma hex_digit_cases:
  assumes "n < 16"
  shows "plain (hex_digit n)" "hex_digit n \<noteq> 0x27" "is_hex (unat (hex_digit n))"
    "hex_value (unat (hex_digit n)) = n"
proof -
  note u = unat_hex_digit [OF assms]
  show "plain (hex_digit n)"
    using assms by (simp add: plain_def uriUnescaped_def word_le_nat_alt u)
  have "unat (hex_digit n) \<noteq> unat (0x27 :: 16 word)" using assms by (simp add: u)
  then show "hex_digit n \<noteq> 0x27" by auto
  show "is_hex (unat (hex_digit n))" using assms by (simp add: is_hex_def u)
  show "hex_value (unat (hex_digit n)) = n" using assms by (simp add: hex_value_def u)
qed

lemma percent_decode_escape:
  assumes "octet < 256"
  shows "percent_decode (map unat (percent_escape octet) @ rest) = octet # percent_decode rest"
proof -
  have h: "octet div 16 < 16" "octet mod 16 < 16" using assms by simp_all
  have "octet div 16 * 16 + octet mod 16 = octet" by simp
  then show ?thesis
    using hex_digit_cases(3,4) [OF h(1)] hex_digit_cases(3,4) [OF h(2)]
    by (simp add: percent_escape_def)
qed

lemma percent_escape_plain:
  assumes "octet < 256"
  shows "list_all plain (percent_escape octet)" "0x27 \<notin> set (percent_escape octet)"
proof -
  have h: "octet div 16 < 16" "octet mod 16 < 16" using assms by simp_all
  show "list_all plain (percent_escape octet)"
    using hex_digit_cases(1) [OF h(1)] hex_digit_cases(1) [OF h(2)]
    by (simp add: percent_escape_def plain_def)
  show "0x27 \<notin> set (percent_escape octet)"
    using hex_digit_cases(2) [OF h(1)] hex_digit_cases(2) [OF h(2)]
    by (auto simp: percent_escape_def)
qed

lemma utf8_octets_bytes:
  assumes "cp < 0x110000"
  shows "list_all (\<lambda>b. b < 256) (utf8_octets cp)"
proof -
  have "cp div 0x40 < 0x20" if "cp < 0x800" using that by linarith
  moreover have "cp div 0x1000 < 0x10" if "cp < 0x10000" using that by linarith
  moreover have "cp div 0x40000 < 5" using assms by linarith
  moreover have "n mod 0x40 < 0x40" for n :: nat by simp
  ultimately show ?thesis
    by (auto simp: utf8_octets_def intro: add_strict_mono less_le_trans
        simp del: mod_less_divisor)
qed

lemma utf8_octets_ascii: "cp < 0x80 \<Longrightarrow> utf8_octets cp = [cp]"
  by (simp add: utf8_octets_def)

lemma usv_code_points_plain:
  "list_all plain s \<Longrightarrow> usv_code_points s = map unat s"
  by (induction s) (simp_all add: plain_not_surrogate)

lemma special_query_escape_plain:
  assumes "plain c"
  shows "special_query_escape (unat c) = (if c = 0x27 then percent_escape 0x27 else [c])"
proof (cases "c = 0x27")
  case True
  then show ?thesis by (simp add: special_query_escape_def utf8_octets_def)
next
  case False
  then have "unat c \<noteq> 0x27"
    by (metis of_nat_unat unsigned_numeral ucast_id of_nat_numeral)
  then show ?thesis using plain_range [OF assms] False
    by (auto simp: special_query_escape_def)
qed

lemma special_query_escape_plain_result:
  assumes "plain c"
  shows "list_all plain (special_query_escape (unat c))"
  using assms percent_escape_plain(1) [of "0x27"]
  by (simp add: special_query_escape_plain)

lemma concat_map_singleton:
  "(\<forall>x\<in>set xs. f x = [x]) \<Longrightarrow> concat (map f xs) = xs"
  by (induction xs) simp_all

lemma special_query_escape_apostrophe: "special_query_escape 0x27 = percent_escape 0x27"
  by (simp add: special_query_escape_def utf8_octets_def)

lemma percent_decode_unit:
  assumes "uriUnescaped c"
  shows "percent_decode (map unat (special_query_escape (unat c)) @ rest) =
           unat c # percent_decode rest"
proof (cases "c = 0x27")
  case True
  then show ?thesis
    using percent_decode_escape [of "0x27" rest]
    by (simp add: special_query_escape_apostrophe)
next
  case False
  have "unat c \<noteq> 0x25" using assms by (auto simp: uriUnescaped_def word_le_nat_alt)
  then show ?thesis using False assms
    by (simp add: special_query_escape_plain plain_def)
qed

lemma query_escape_percent_escape:
  assumes "octet < 256"
  shows "concat (map (\<lambda>c. special_query_escape (unat c)) (percent_escape octet)) =
           percent_escape octet"
proof -
  have "special_query_escape (unat c) = [c]" if "c \<in> set (percent_escape octet)" for c
    using that percent_escape_plain [OF assms]
    by (auto simp: special_query_escape_plain list_all_iff)
  then show ?thesis by (intro concat_map_singleton) simp
qed

lemma percent_decode_octets:
  assumes "list_all (\<lambda>b. b < 256) octs"
  shows "percent_decode
           (map unat (concat (map (\<lambda>c. special_query_escape (unat c))
              (concat (map percent_escape octs)))) @ rest) =
         octs @ percent_decode rest"
  using assms
proof (induction octs)
  case Nil
  then show ?case by simp
next
  case (Cons b octs)
  then show ?case
    by (simp add: query_escape_percent_escape percent_decode_escape)
qed

lemma percent_decode_enc_cp:
  assumes "scalar cp"
  shows "percent_decode
           (map unat (concat (map (\<lambda>c. special_query_escape (unat c)) (enc_cp cp))) @ rest) =
         utf8_octets cp @ percent_decode rest"
proof (cases "cp < 0x10000 \<and> uriUnescaped (of_nat cp)")
  case True
  define c :: "16 word" where "c = of_nat cp"
  have u: "unat c = cp" using True by (simp add: c_def unat_of_nat)
  have "cp < 0x80" using plain_range(2) [of c] True u by (simp add: plain_def c_def)
  then show ?thesis
    using True percent_decode_unit [of c rest] u
    by (simp add: enc_cp_def c_def [symmetric] utf8_octets_ascii)
next
  case False
  have "cp < 0x110000" using assms by (simp add: scalar_def)
  moreover have "enc_cp cp = concat (map percent_escape (utf8_octets cp))"
    using False by (auto simp: enc_cp_def)
  ultimately show ?thesis
    using utf8_octets_bytes [of cp] by (simp add: percent_decode_octets)
qed

lemma percent_decode_encoded:
  assumes "list_all scalar cps"
  shows "percent_decode
           (map unat (concat (map (\<lambda>c. special_query_escape (unat c))
              (concat (map enc_cp cps))))) =
         concat (map utf8_octets cps)"
  using assms
proof (induction cps)
  case Nil
  then show ?case by simp
next
  case (Cons cp cps)
  then show ?case
    using percent_decode_enc_cp [of cp]
    by simp
qed

lemma utf8_decode_encoded:
  assumes "list_all scalar cps"
  shows "utf8_decode_from None (concat (map utf8_octets cps)) = cps"
  using assms by (induction cps) (simp_all add: utf8_decode_octets)

lemma percent_escapes_plain:
  "list_all (\<lambda>b. b < 256) octs \<Longrightarrow> list_all plain (concat (map percent_escape octs))"
  by (induction octs) (simp_all add: percent_escape_plain(1))

lemma enc_cp_plain:
  assumes "scalar cp"
  shows "list_all plain (enc_cp cp)"
proof -
  have "cp < 0x110000" using assms by (simp add: scalar_def)
  from percent_escapes_plain [OF utf8_octets_bytes [OF this]]
  show ?thesis by (simp add: enc_cp_def plain_def)
qed

lemma plain_query_safe: "plain c \<Longrightarrow> query_safe (unat c)"
  using plain_range [of c] by (simp add: query_safe_def)

lemma dropWhile_none: "(\<forall>x\<in>set xs. \<not> P x) \<Longrightarrow> dropWhile P xs = xs"
  by (cases xs) simp_all

lemma takeWhile_all: "(\<forall>x\<in>set xs. P x) \<Longrightarrow> takeWhile P xs = xs"
  by (induction xs) simp_all

lemma split_on_absent: "sep \<notin> set xs \<Longrightarrow> split_on sep xs = [xs]"
  by (induction xs) auto

lemma concat_utf8_ascii:
  "(\<forall>x\<in>set xs. x < 0x80) \<Longrightarrow> concat (map utf8_octets xs) = xs"
  by (induction xs) (simp_all add: utf8_octets_ascii)

lemma usv_code_points_prefix:
  "list_all (\<lambda>c. \<not> isLeadingSurrogate c \<and> \<not> isTrailingSurrogate c) p \<Longrightarrow>
   usv_code_points (p @ s) = map unat p @ usv_code_points s"
  by (induction p) simp_all

lemma strip_none: "(\<forall>x\<in>set xs. 0x20 < x) \<Longrightarrow> strip_c0_space xs = xs"
proof -
  assume a: "\<forall>x\<in>set xs. 0x20 < x"
  then have "dropWhile (\<lambda>cp. cp \<le> 0x20) xs = xs" by (intro dropWhile_none) auto
  moreover have "dropWhile (\<lambda>cp. cp \<le> 0x20) (rev xs) = rev xs"
    using a by (intro dropWhile_none) auto
  ultimately show ?thesis by (simp add: strip_c0_space_def)
qed

lemma location_search_jobs:
  assumes "list_all plain enc"
  shows "location_search (ascii ''/jobs?resume_id='' @ enc) =
           0x3F # ascii ''resume_id='' @ concat (map (\<lambda>c. special_query_escape (unat c)) enc)"
proof -
  define U where "U = map unat enc"
  have U: "\<forall>n\<in>set U. query_safe n"
    using assms by (auto simp: U_def list_all_iff plain_query_safe)
  define P :: "nat list" where
    "P = [0x2F, 0x6A, 0x6F, 0x62, 0x73, 0x3F, 0x72, 0x65, 0x73, 0x75, 0x6D, 0x65, 0x5F, 0x69,
          0x64, 0x3D]"
  have cps: "usv_code_points (ascii ''/jobs?resume_id='' @ enc) = P @ U"
  proof -
    have "list_all (\<lambda>c. \<not> isLeadingSurrogate c \<and> \<not> isTrailingSurrogate c)
        (ascii ''/jobs?resume_id'' @ [0x3D])"
      by (simp add: ascii_def isLeadingSurrogate_def isTrailingSurrogate_def)
    moreover have "ascii ''/jobs?resume_id='' = ascii ''/jobs?resume_id'' @ [0x3D]"
      by (simp add: ascii_def)
    moreover have "map unat (ascii ''/jobs?resume_id'' @ [0x3D]) = P"
      by (simp add: ascii_def P_def)
    ultimately show ?thesis
      using usv_code_points_prefix [of "ascii ''/jobs?resume_id'' @ [0x3D]" enc]
        usv_code_points_plain [OF assms]
      by (simp add: U_def)
  qed
  have big: "\<forall>x\<in>set (P @ U). 0x20 < x" using U by (auto simp: P_def query_safe_def)
  have s: "strip_c0_space (P @ U) = P @ U" using big by (rule strip_none)
  have f: "filter (\<lambda>cp. cp \<notin> {0x09, 0x0A, 0x0D}) (P @ U) = P @ U"
    using big by (intro filter_True) fastforce
  have t: "takeWhile (\<lambda>cp. cp \<noteq> 0x23) (P @ U) = P @ U"
    using U by (intro takeWhile_all) (auto simp: P_def query_safe_def)
  have d: "drop 1 (dropWhile (\<lambda>cp. cp \<noteq> 0x3F) (P @ U)) =
      [0x72, 0x65, 0x73, 0x75, 0x6D, 0x65, 0x5F, 0x69, 0x64, 0x3D] @ U"
    by (simp add: P_def)
  have q: "concat (map special_query_escape
        [0x72, 0x65, 0x73, 0x75, 0x6D, 0x65, 0x5F, 0x69, 0x64, 0x3D]) = ascii ''resume_id=''"
    by (simp add: special_query_escape_def ascii_def)
  have u: "concat (map special_query_escape U) =
      concat (map (\<lambda>c. special_query_escape (unat c)) enc)"
    by (simp add: U_def o_def)
  have h: "concat (map special_query_escape
        ([0x72, 0x65, 0x73, 0x75, 0x6D, 0x65, 0x5F, 0x69, 0x64, 0x3D] @ U)) =
      ascii ''resume_id='' @ concat (map (\<lambda>c. special_query_escape (unat c)) enc)"
    by (simp only: map_append concat_append q u)
  have ne: "([0x72, 0x65, 0x73, 0x75, 0x6D, 0x65, 0x5F, 0x69, 0x64, 0x3D] @ U = []) = False"
    by simp
  show ?thesis
    unfolding location_search_def cps s f t d Let_def
    by (simp only: ne if_False h)
qed

lemma query_escape_plain:
  "list_all plain enc \<Longrightarrow>
   list_all plain (concat (map (\<lambda>c. special_query_escape (unat c)) enc))"
  by (induction enc) (simp_all add: special_query_escape_plain_result)

lemma form_decode_name:
  "form_decode [0x72, 0x65, 0x73, 0x75, 0x6D, 0x65, 0x5F, 0x69, 0x64] = ascii ''resume_id''"
  by (simp add: form_decode_def utf8_first_def utf16_def ascii_def)

lemma form_decode_value:
  assumes "list_all scalar cps"
  shows "form_decode (map unat (concat (map (\<lambda>c. special_query_escape (unat c))
            (concat (map enc_cp cps))))) = concat (map utf16 cps)"
proof -
  define escd where
    "escd = concat (map (\<lambda>c. special_query_escape (unat c)) (concat (map enc_cp cps)))"
  have "list_all plain (concat (map enc_cp cps))"
    using assms by (induction cps) (simp_all add: enc_cp_plain)
  then have "list_all plain escd" unfolding escd_def by (rule query_escape_plain)
  then have "\<forall>c\<in>set escd. unat c \<noteq> 0x2B"
    using plain_range(3) by (fastforce simp: list_all_iff)
  then have m: "map (\<lambda>b. if b = 0x2B then 0x20 else b) (map unat escd) = map unat escd"
    by (induction escd) simp_all
  have p: "percent_decode (map unat escd) = concat (map utf8_octets cps)"
    unfolding escd_def using assms by (rule percent_decode_encoded)
  show ?thesis
    unfolding escd_def [symmetric] form_decode_def m p
    by (simp only: utf8_decode_encoded [OF assms])
qed

lemma URLSearchParams_jobs:
  assumes "list_all plain escd"
  shows "URLSearchParams (0x3F # ascii ''resume_id='' @ escd) =
           [(ascii ''resume_id'', form_decode (map unat escd))]"
proof -
  define Q :: "nat list" where
    "Q = [0x72, 0x65, 0x73, 0x75, 0x6D, 0x65, 0x5F, 0x69, 0x64, 0x3D]"
  define V where "V = map unat escd"
  have V: "\<forall>n\<in>set V. query_safe n"
    using assms by (auto simp: V_def list_all_iff plain_query_safe)
  have cps: "usv_code_points (ascii ''resume_id='' @ escd) = Q @ V"
  proof -
    have "list_all (\<lambda>c. \<not> isLeadingSurrogate c \<and> \<not> isTrailingSurrogate c)
        (ascii ''resume_id'' @ [0x3D])"
      by (simp add: ascii_def isLeadingSurrogate_def isTrailingSurrogate_def)
    moreover have "ascii ''resume_id='' = ascii ''resume_id'' @ [0x3D]"
      by (simp add: ascii_def)
    moreover have "map unat (ascii ''resume_id'' @ [0x3D]) = Q"
      by (simp add: ascii_def Q_def)
    ultimately show ?thesis
      using usv_code_points_prefix [of "ascii ''resume_id'' @ [0x3D]" escd]
        usv_code_points_plain [OF assms]
      by (simp add: V_def)
  qed
  have qs: "n < 0x80 \<and> n \<noteq> 0x26 \<and> n \<noteq> 0x3D" if "query_safe n" for n
    using that by (simp add: query_safe_def)
  have Vs: "\<forall>x\<in>set V. x < 0x80 \<and> x \<noteq> 0x26 \<and> x \<noteq> 0x3D"
    using V qs by blast
  have small: "\<forall>x\<in>set (Q @ V). x < 0x80" using Vs by (simp add: Q_def)
  have bytes: "concat (map utf8_octets (Q @ V)) = Q @ V" using small by (rule concat_utf8_ascii)
  have "0x26 \<notin> set V" using Vs by blast
  then have "0x26 \<notin> set (Q @ V)" by (simp add: Q_def)
  then have sp: "split_on 0x26 (Q @ V) = [Q @ V]" by (rule split_on_absent)
  have ne: "Q @ V \<noteq> []" by (simp add: Q_def)
  have n: "takeWhile (\<lambda>b. b \<noteq> 0x3D) (Q @ V) = [0x72, 0x65, 0x73, 0x75, 0x6D, 0x65, 0x5F, 0x69, 0x64]"
    by (simp add: Q_def)
  have v: "drop 1 (dropWhile (\<lambda>b. b \<noteq> 0x3D) (Q @ V)) = V" by (simp add: Q_def)
  have nv: "name_value (Q @ V) = (ascii ''resume_id'', form_decode V)"
    unfolding name_value_def n v by (simp only: form_decode_name)
  have "URLSearchParams (0x3F # ascii ''resume_id='' @ escd) =
      map name_value (filter (\<lambda>seq. seq \<noteq> []) (split_on 0x26 (Q @ V)))"
    unfolding URLSearchParams_def Let_def by (simp only: list.case refl if_True cps bytes)
  then show ?thesis unfolding V_def [symmetric] using ne by (simp add: sp nv)
qed

lemma search_parameter_round_trip:
  assumes "well_formed rid" and "encodeURIComponent rid = Inr enc"
  shows "searchParams_get
           (URLSearchParams (location_search (ascii ''/jobs?resume_id='' @ enc)))
           (ascii ''resume_id'') = Some rid"
proof -
  define cps where "cps = usv_code_points rid"
  have sc: "list_all scalar cps" unfolding cps_def using assms(1) by (rule scalar_code_points)
  have enc: "enc = concat (map enc_cp cps)"
    using encodeURIComponent_code_points [OF assms(1)] assms(2) by (simp add: cps_def)
  have pl: "list_all plain enc"
    unfolding enc using sc by (induction cps) (simp_all add: enc_cp_plain)
  define escd where "escd = concat (map (\<lambda>c. special_query_escape (unat c)) enc)"
  have pe: "list_all plain escd" unfolding escd_def using pl by (rule query_escape_plain)
  have "location_search (ascii ''/jobs?resume_id='' @ enc) = 0x3F # ascii ''resume_id='' @ escd"
    unfolding escd_def using pl by (rule location_search_jobs)
  then have "URLSearchParams (location_search (ascii ''/jobs?resume_id='' @ enc)) =
      [(ascii ''resume_id'', form_decode (map unat escd))]"
    using URLSearchParams_jobs [OF pe] by simp
  moreover have "form_decode (map unat escd) = rid"
    unfolding escd_def enc
    using form_decode_value [OF sc] utf16_code_points [OF assms(1)] by (simp add: cps_def)
  ultimately show ?thesis by (simp add: searchParams_get_def)
qed


text \<open>
  Claim C7, as stated: every string \<open>resume_id\<close> leads to the navigation, the string-type
  check being the only validation. The empty string is a string, and for it the control
  reports the missing identifier and does not navigate.
\<close>

theorem empty_resume_id_counterexample:
  "data_resume_id (example_response (Some (JString []))) = Inr (Some (JString []))
   \<and> onUploadSuccess example_file (example_response (Some (JString []))) =
     ([setUploadFeedback
         (Some \<lparr>feedback_type = feedback_error,
                feedback_message = msg_missing_resume_id\<rparr>)], None)"
  by (simp add: onUploadSuccess_def example_response_def)

text \<open>
  Claim C7, amended. For every successful upload whose \<open>resume_id\<close> is a non-empty string
  without unpaired surrogates, the control makes no identifier of its own: the address
  assigned is exactly \<open>/jobs?resume_id=\<close> followed by \<open>encodeURIComponent\<close> of that
  identifier. The \<open>resume_id\<close> search parameter that the jobs page reads from this
  address is the identifier again, and the form passes it unchanged to both of its API calls.
\<close>

theorem resume_id_echoed:
  assumes "data_resume_id response = Inr (Some (JString rid))"
    and "rid \<noteq> []"
    and "well_formed rid"
  shows "\<exists>enc.
           encodeURIComponent rid = Inr enc
         \<and> onUploadSuccess uploadedFile response =
             ([setUploadFeedback
                 (Some \<lparr>feedback_type = feedback_success,
                        feedback_message = file_name uploadedFile @ msg_upload_succeeded\<rparr>),
               clearErrors,
               set_location_href (ascii ''/jobs?resume_id='' @ enc)], None)
         \<and> page_resumeId (ascii ''/jobs?resume_id='' @ enc) = Some rid
         \<and> (trim (text_value s) \<noteq> [] \<longrightarrow>
              in_flight (handleUpload (page_resumeId (ascii ''/jobs?resume_id='' @ enc)) s) =
                in_flight s @ [uploadJobDescriptions [trim (text_value s)] rid])
         \<and> (jobId s = Some j \<and> j \<noteq> [] \<longrightarrow>
              in_flight (handleImprove (page_resumeId (ascii ''/jobs?resume_id='' @ enc)) s) =
                in_flight s @ [improveResume (Some rid) j])"
proof -
  from assms(3) obtain enc where enc: "encodeURIComponent rid = Inr enc"
    using encodeURIComponent_well_formed by blast
  define href where "href = ascii ''/jobs?resume_id='' @ enc"
  have p: "page_resumeId href = Some rid"
    unfolding page_resumeId_def href_def
    using assms(3) enc by (rule search_parameter_round_trip)
  have "onUploadSuccess uploadedFile response =
           ([setUploadFeedback
               (Some \<lparr>feedback_type = feedback_success,
                      feedback_message = file_name uploadedFile @ msg_upload_succeeded\<rparr>),
             clearErrors,
             set_location_href href], None)"
    using assms(1,2) enc by (simp add: onUploadSuccess_def href_def)
  moreover have "trim (text_value s) \<noteq> [] \<longrightarrow>
            in_flight (handleUpload (page_resumeId href) s) =
              in_flight s @ [uploadJobDescriptions [trim (text_value s)] rid]"
    using assms(2) by (simp add: handleUpload_def p)
  moreover have "jobId s = Some j \<and> j \<noteq> [] \<longrightarrow>
            in_flight (handleImprove (page_resumeId href) s) =
              in_flight s @ [improveResume (Some rid) j]"
    by (simp add: handleImprove_def p)
  ultimately show ?thesis using enc p unfolding href_def by blast
qed

lemma enc_e9: "encodeURIComponent (ascii ''a b'') = Inr (ascii ''a%20b'')"
  by (simp add: ascii_def uriUnescaped_def isTrailingSurrogate_def isLeadingSurrogate_def
      utf8_octets_def percent_escape_def hex_digit_def)

theorem resume_id_echoed_witness:
  "onUploadSuccess example_file (example_response (Some (JString (ascii ''a b'')))) =
     ([setUploadFeedback
         (Some \<lparr>feedback_type = feedback_success,
                feedback_message = ascii ''cv.pdf'' @ msg_upload_succeeded\<rparr>),
       clearErrors,
       set_location_href (ascii ''/jobs?resume_id=a%20b'')], None)
   \<and> page_resumeId (ascii ''/jobs?resume_id=a%20b'') = Some (ascii ''a b'')
   \<and> in_flight (handleUpload (page_resumeId (ascii ''/jobs?resume_id=a%20b''))
         (example_form (ascii ''x''))) =
       [uploadJobDescriptions [ascii ''x''] (ascii ''a b'')]"
proof -
  have w: "well_formed (ascii ''a b'')"
    by (simp add: ascii_def isLeadingSurrogate_def isTrailingSurrogate_def)
  have r: "data_resume_id (example_response (Some (JString (ascii ''a b''))))
      = Inr (Some (JString (ascii ''a b'')))"
    by (simp add: example_response_def)
  have n: "ascii ''a b'' \<noteq> []" by (simp add: ascii_def)
  have t: "trim (ascii ''x'') = ascii ''x''"
    by (simp add: trim_def isWhiteSpace_def ascii_def)
  have a: "ascii ''/jobs?resume_id='' @ ascii ''a%20b'' = ascii ''/jobs?resume_id=a%20b''"
    by (simp add: ascii_def)
  have x: "ascii ''x'' \<noteq> []" by (simp add: ascii_def)
  from resume_id_echoed
    [of "example_response (Some (JString (ascii ''a b'')))" "ascii ''a b''" example_file
      "example_form (ascii ''x'')", OF r n w]
  obtain enc where
    h: "encodeURIComponent (ascii ''a b'') = Inr enc"
    and 1: "onUploadSuccess example_file (example_response (Some (JString (ascii ''a b'')))) =
      ([setUploadFeedback
          (Some \<lparr>feedback_type = feedback_success,
                 feedback_message = file_name example_file @ msg_upload_succeeded\<rparr>),
        clearErrors, set_location_href (ascii ''/jobs?resume_id='' @ enc)], None)"
    and 2: "page_resumeId (ascii ''/jobs?resume_id='' @ enc) = Some (ascii ''a b'')"
    and 3: "trim (text_value (example_form (ascii ''x''))) \<noteq> [] \<longrightarrow>
      in_flight (handleUpload (page_resumeId (ascii ''/jobs?resume_id='' @ enc))
          (example_form (ascii ''x''))) =
        in_flight (example_form (ascii ''x'')) @
          [uploadJobDescriptions [trim (text_value (example_form (ascii ''x'')))]
             (ascii ''a b'')]"
    by blast
  have e: "enc = ascii ''a%20b''" using h by (simp add: enc_e9)
  have h': "ascii ''/jobs?resume_id='' @ enc = ascii ''/jobs?resume_id=a%20b''"
    unfolding e by (rule a)
  have tx: "text_value (example_form (ascii ''x'')) = ascii ''x''"
    "in_flight (example_form (ascii ''x'')) = []"
    by (simp_all add: example_form_def initial_state_def)
  have f: "file_name example_file = ascii ''cv.pdf''" by (simp add: example_file_def)
  show ?thesis using 1 2 3 unfolding h' tx t f by (simp add: x)
qed

lemma accept_types:
  "split_on 0x2C acceptString =
     [ascii ''application/pdf'',
      ascii ''application/vnd.openxmlformats-officedocument.wordprocessingml.document'']"
  by (simp add: acceptString_def acceptedFileTypes_def ascii_def)

text \<open>
  Claim C4. A file of more than \<open>2 * 1024 * 1024\<close> bytes, or whose type is neither
  \<open>application/pdf\<close> nor the type of a \<open>.docx\<close> document, is rejected with no upload
  request made; the limits are the constants \<open>maxSize\<close> and \<open>acceptedFileTypes\<close> (joined
  by commas) that \<open>FileUpload\<close> passes to the hook.
\<close>

theorem oversized_or_wrong_type_rejected:
  assumes "2 * 1024 * 1024 < file_size file
         \<or> (file_type file \<noteq> ascii ''application/pdf''
            \<and> file_type file \<noteq>
                ascii ''application/vnd.openxmlformats-officedocument.wordprocessingml.document'')"
  shows "useFileUpload_requests (FileUpload_options api_url) file = []
       \<and> opt_maxSize (FileUpload_options api_url) = maxSize
       \<and> opt_accept (FileUpload_options api_url) = join (ascii '','') acceptedFileTypes"
proof -
  have "useFileUpload_requests (FileUpload_options api_url) file = []"
    using assms
    by (auto simp: useFileUpload_requests_def validateFile_def FileUpload_options_def
        accept_types maxSize_def)
  then show ?thesis by (simp add: FileUpload_options_def acceptString_def)
qed

theorem oversized_or_wrong_type_rejected_witness:
  "useFileUpload_requests (FileUpload_options (ascii ''http://localhost:8000''))
     (example_file\<lparr>file_size := 2097153\<rparr>) = []
   \<and> useFileUpload_requests (FileUpload_options (ascii ''http://localhost:8000''))
     (example_file\<lparr>file_type := ascii ''application/msword''\<rparr>) = []"
proof -
  have t: "ascii ''application/msword'' \<noteq> ascii ''application/pdf''"
    "ascii ''application/msword'' \<noteq>
       ascii ''application/vnd.openxmlformats-officedocument.wordprocessingml.document''"
    by (simp_all add: ascii_def)
  from oversized_or_wrong_type_rejected
      [of "example_file\<lparr>file_size := 2097153\<rparr>" "ascii ''http://localhost:8000''"]
    oversized_or_wrong_type_rejected
      [of "example_file\<lparr>file_type := ascii ''application/msword''\<rparr>"
        "ascii ''http://localhost:8000''"]
  show ?thesis by (simp add: example_file_def t)
qed

lemma accepted_file_uploaded_once:
  "useFileUpload_requests (FileUpload_options (ascii ''http://localhost:8000'')) example_file =
     [POST (ascii ''http://localhost:8000/api/v1/resumes/upload'') example_file]"
  by (simp add: useFileUpload_requests_def validateFile_def FileUpload_options_def
      accept_types maxSize_def example_file_def) (simp add: ascii_def)

end
